theory Spec2Isabelle
  imports Complex_Main "HOL-Library.Word" "HOL-Library.Log_Nat"
begin

section \<open>Values shared by the whole plugin\<close>

type_synonym byte = "8 word"

text \<open>A JavaScript exception: the two fields the plugin reads, \<open>e.name\<close> and
  \<open>e.message\<close>, and the name of the error it wraps (\<open>e.inner.name\<close>, which the
  storage library sets on the errors it throws; the plugin never reads it).\<close>

record error =
  ename :: string
  emessage :: string
  inner :: "string option"

definition Error :: "string \<Rightarrow> error" where
  "Error msg = \<lparr>ename = ''Error'', emessage = msg, inner = None\<rparr>"

text \<open>A \<open>Blob\<close> of the platform: its bytes, and the error with which reading it is
  rejected when the underlying data cannot be read (\<open>None\<close> for a readable blob).\<close>

record blob =
  bytes :: "byte list"
  unreadable :: "error option"

definition blob_size :: "blob \<Rightarrow> nat" where
  "blob_size b = length (bytes b)"

text \<open>\<open>Blob.slice(start, end)\<close> of the File API, for the non-negative integer arguments
  the adapter passes: both ends are clamped to the size of the blob and the span is never
  negative.\<close>

definition blob_slice :: "blob \<Rightarrow> nat \<Rightarrow> nat \<Rightarrow> blob" where
  "blob_slice b start end' =
     (let relativeStart = min start (blob_size b);
          relativeEnd = min end' (blob_size b);
          span = relativeEnd - relativeStart
      in b\<lparr>bytes := take span (drop relativeStart (bytes b))\<rparr>)"

definition arrayBuffer :: "blob \<Rightarrow> error + byte list" where
  "arrayBuffer b = (case unreadable b of Some e \<Rightarrow> Inl e | None \<Rightarrow> Inr (bytes b))"

section \<open>JavaScript numbers\<close>

text \<open>
  A JavaScript number is an IEEE 754 double. The finite non-zero doubles and \<open>+0\<close> are
  the rationals \<open>Fin x\<close> they denote; the negative zero, the two infinities and NaN are
  values of their own. Arithmetic is exact arithmetic on the rationals followed by
  rounding to the nearest double, ties to the even significand (\<open>fl\<close>).
\<close>

datatype double = Fin rat | NegZero | NaN | PosInf | NegInf

text \<open>\<open>ilog2 x\<close> is \<open>\<lfloor>log\<^sub>2 x\<rfloor>\<close> for a positive rational.\<close>

definition ilog2 :: "rat \<Rightarrow> int" where
  "ilog2 x = (if 1 \<le> x then bitlen \<lfloor>x\<rfloor> - 1 else - bitlen (\<lceil>1 / x\<rceil> - 1))"

text \<open>Rounding to the nearest integer, a tie to the even one.\<close>

definition rne :: "rat \<Rightarrow> int" where
  "rne x =
     (let f = \<lfloor>x\<rfloor>; d = x - of_int f
      in if d < 1 / 2 then f else if 1 / 2 < d then f + 1 else if even f then f else f + 1)"

text \<open>The spacing of the doubles around a positive rational: 53 significant bits, and
  the fixed spacing \<open>2\<^sup>-\<^sup>1\<^sup>0\<^sup>7\<^sup>4\<close> of the subnormal range.\<close>

definition ulp :: "rat \<Rightarrow> rat" where
  "ulp a = power_int 2 (max (ilog2 a) (- 1022) - 52)"

definition fl_pos :: "rat \<Rightarrow> rat" where
  "fl_pos a = of_int (rne (a / ulp a)) * ulp a"

definition fl :: "rat \<Rightarrow> double" where
  "fl x =
     (if x = 0 then Fin 0
      else let v = fl_pos \<bar>x\<bar>
           in if 2 ^ 1024 \<le> v then (if 0 < x then PosInf else NegInf)
              else if v = 0 then (if 0 < x then Fin 0 else NegZero)
              else Fin (if 0 < x then v else - v))"

fun is_neg :: "double \<Rightarrow> bool" where
  "is_neg (Fin x) = (x < 0)"
| "is_neg NegZero = True"
| "is_neg NegInf = True"
| "is_neg _ = False"

fun is_zero :: "double \<Rightarrow> bool" where
  "is_zero (Fin x) = (x = 0)"
| "is_zero NegZero = True"
| "is_zero _ = False"

fun is_inf :: "double \<Rightarrow> bool" where
  "is_inf PosInf = True"
| "is_inf NegInf = True"
| "is_inf _ = False"

definition signed_zero :: "bool \<Rightarrow> double" where
  "signed_zero neg = (if neg then NegZero else Fin 0)"

definition signed_inf :: "bool \<Rightarrow> double" where
  "signed_inf neg = (if neg then NegInf else PosInf)"

text \<open>The rational a finite double denotes (both zeros denote 0).\<close>

fun rat_of :: "double \<Rightarrow> rat" where
  "rat_of (Fin x) = x"
| "rat_of _ = 0"

text \<open>The operators \<open>/\<close>, \<open>*\<close> and \<open><\<close> of the language on numbers.\<close>

definition js_div :: "double \<Rightarrow> double \<Rightarrow> double" where
  "js_div a b =
     (if a = NaN \<or> b = NaN then NaN
      else if is_inf a then (if is_inf b then NaN else signed_inf (is_neg a \<noteq> is_neg b))
      else if is_inf b then signed_zero (is_neg a \<noteq> is_neg b)
      else if is_zero b then (if is_zero a then NaN else signed_inf (is_neg a \<noteq> is_neg b))
      else if is_zero a then signed_zero (is_neg a \<noteq> is_neg b)
      else fl (rat_of a / rat_of b))"

definition js_mul :: "double \<Rightarrow> double \<Rightarrow> double" where
  "js_mul a b =
     (if a = NaN \<or> b = NaN then NaN
      else if is_inf a \<or> is_inf b then
        (if is_zero a \<or> is_zero b then NaN else signed_inf (is_neg a \<noteq> is_neg b))
      else if is_zero a \<or> is_zero b then signed_zero (is_neg a \<noteq> is_neg b)
      else fl (rat_of a * rat_of b))"

definition js_lt :: "double \<Rightarrow> double \<Rightarrow> bool" where
  "js_lt a b =
     (if a = NaN \<or> b = NaN then False
      else if a = NegInf then b \<noteq> NegInf
      else if b = PosInf then a \<noteq> PosInf
      else if a = PosInf \<or> b = NegInf then False
      else rat_of a < rat_of b)"

definition isNaN :: "double \<Rightarrow> bool" where
  "isNaN d = (d = NaN)"

text \<open>A byte count (\<open>blob.size\<close>, the running \<open>receivedLength\<close>) is a natural
  number: such counts are exact doubles as long as they stay below \<open>2\<^sup>5\<^sup>3\<close>, which every
  size the platform can hand out does.\<close>

definition of_size :: "nat \<Rightarrow> double" where
  "of_size n = Fin (of_nat n)"

section \<open>Strings\<close>

text \<open>Strings are lists of 8-bit characters (code units below 256).\<close>

definition digit_char :: "nat \<Rightarrow> char" where
  "digit_char d = char_of (48 + d)"

function show_nat :: "nat \<Rightarrow> string" where
  "show_nat n = (if n < 10 then [digit_char n] else show_nat (n div 10) @ [digit_char (n mod 10)])"
  by pat_completeness auto
termination
  by (relation "measure id") auto

declare show_nat.simps [simp del]

definition show_int :: "int \<Rightarrow> string" where
  "show_int i = (if i < 0 then CHR ''-'' # show_nat (nat (- i)) else show_nat (nat i))"

text \<open>\<open>String.prototype.startsWith\<close>, \<open>String.prototype.replace\<close> with a string pattern
  (the first occurrence only) and \<open>String.prototype.split\<close> on a one-character separator.\<close>

definition startsWith :: "string \<Rightarrow> string \<Rightarrow> bool" where
  "startsWith s p = (take (length p) s = p)"

fun replace_first :: "string \<Rightarrow> string \<Rightarrow> string \<Rightarrow> string" where
  "replace_first pat rep [] = (if pat = [] then rep else [])"
| "replace_first pat rep (c # cs) =
     (if startsWith (c # cs) pat then rep @ drop (length pat) (c # cs)
      else c # replace_first pat rep cs)"

fun split :: "char \<Rightarrow> string \<Rightarrow> string list" where
  "split sep [] = [[]]"
| "split sep (c # cs) =
     (if c = sep then [] # split sep cs
      else (case split sep cs of [] \<Rightarrow> [[c]] | p # ps \<Rightarrow> (c # p) # ps))"

text \<open>White space as \<open>parseInt\<close> and \<open>trim\<close> strip it: TAB, LF, VT, FF, CR, SP and the
  no-break space.\<close>

definition is_space :: "char \<Rightarrow> bool" where
  "is_space c = (of_char c \<in> {9, 10, 11, 12, 13, 32, 160 :: nat})"

definition trim :: "string \<Rightarrow> string" where
  "trim s = rev (dropWhile is_space (rev (dropWhile is_space s)))"

definition digit_val :: "char \<Rightarrow> nat option" where
  "digit_val c =
     (let n = of_char c :: nat
      in if 48 \<le> n \<and> n \<le> 57 then Some (n - 48)
         else if 97 \<le> n \<and> n \<le> 122 then Some (n - 87)
         else if 65 \<le> n \<and> n \<le> 90 then Some (n - 55)
         else None)"

definition is_digit :: "nat \<Rightarrow> char \<Rightarrow> bool" where
  "is_digit R c = (case digit_val c of None \<Rightarrow> False | Some d \<Rightarrow> d < R)"

definition digits_value :: "nat \<Rightarrow> string \<Rightarrow> nat" where
  "digits_value R Z = foldl (\<lambda>a c. a * R + the (digit_val c)) 0 Z"

text \<open>
  The global \<open>parseInt(string, radix)\<close> on a string, step by step as ECMAScript defines
  it; an absent radix is \<open>None\<close>. The integer read is rounded to a double like every
  number (past 20 significant digits the standard lets an engine approximate before
  rounding; the model rounds the exact integer).
\<close>

definition parseInt :: "string \<Rightarrow> nat option \<Rightarrow> double" where
  "parseInt inputString radix =
     (let S = dropWhile is_space inputString;
          neg = (case S of [] \<Rightarrow> False | c # _ \<Rightarrow> c = CHR ''-'');
          S1 = (case S of [] \<Rightarrow> [] | c # cs \<Rightarrow> if c = CHR ''+'' \<or> c = CHR ''-'' then cs else S);
          R0 = (case radix of None \<Rightarrow> 0 | Some r \<Rightarrow> r)
      in if R0 \<noteq> 0 \<and> (R0 < 2 \<or> 36 < R0) then NaN
         else let stripPrefix = (R0 = 0 \<or> R0 = 16);
                  R1 = (if R0 = 0 then 10 else R0);
                  hex = (stripPrefix \<and> (startsWith S1 ''0x'' \<or> startsWith S1 ''0X''));
                  S2 = (if hex then drop 2 S1 else S1);
                  R = (if hex then 16 else R1);
                  Z = takeWhile (is_digit R) S2
              in if Z = [] then NaN
                 else let mathInt = digits_value R Z
                      in if mathInt = 0 then signed_zero neg
                         else fl (if neg then - of_nat mathInt else of_nat mathInt))"

section \<open>pmtiles\_adapter.js: BlobSource\<close>

record BlobSource =
  blob :: blob
  key :: string

text \<open>The constructor: \<open>key || "blob_source"\<close>; an absent key is \<open>None\<close>.\<close>

definition new_BlobSource :: "blob \<Rightarrow> string option \<Rightarrow> BlobSource" where
  "new_BlobSource b k =
     \<lparr>blob = b, key = (case k of None \<Rightarrow> ''blob_source'' | Some s \<Rightarrow> if s = [] then ''blob_source'' else s)\<rparr>"

definition getKey :: "BlobSource \<Rightarrow> string" where
  "getKey src = key src"

text \<open>\<open>getBytes\<close> returns \<open>{ data: buffer }\<close>; the model returns the buffer.\<close>

definition getBytes :: "BlobSource \<Rightarrow> nat \<Rightarrow> nat \<Rightarrow> error + byte list" where
  "getBytes src offset len = arrayBuffer (blob_slice (blob src) offset (offset + len))"

section \<open>JavaScript values\<close>

text \<open>The values JSON can denote, and \<open>undefined\<close>. An object is the list of its own
  properties; the first binding of a key is its value.\<close>

datatype jsval =
    Undefined
  | Null
  | Boolean bool
  | Num double
  | Str string
  | Arr "jsval list"
  | Obj "(string \<times> jsval) list"

fun truthy :: "jsval \<Rightarrow> bool" where
  "truthy Undefined = False"
| "truthy Null = False"
| "truthy (Boolean b) = b"
| "truthy (Num d) = (\<not> is_zero d \<and> d \<noteq> NaN)"
| "truthy (Str s) = (s \<noteq> [])"
| "truthy (Arr xs) = True"
| "truthy (Obj kvs) = True"

text \<open>\<open>a || b\<close>.\<close>

definition or_else :: "jsval \<Rightarrow> jsval \<Rightarrow> jsval" where
  "or_else a b = (if truthy a then a else b)"

text \<open>Reading a named property (never \<open>length\<close> or an index) of a value that is neither
  \<open>undefined\<close> nor \<open>null\<close>: an own property of an object, \<open>undefined\<close> otherwise.\<close>

fun get_prop :: "jsval \<Rightarrow> string \<Rightarrow> jsval" where
  "get_prop (Obj kvs) k = (case map_of kvs k of None \<Rightarrow> Undefined | Some v \<Rightarrow> v)"
| "get_prop _ k = Undefined"

definition TypeError :: "string \<Rightarrow> error" where
  "TypeError msg = \<lparr>ename = ''TypeError'', emessage = msg, inner = None\<rparr>"

text \<open>
  \<open>Number::toString\<close>: the decimal digits of an integer below \<open>10\<^sup>2\<^sup>1\<close>, the names of
  the non-finite values; for every other double the shortest digits that read back to
  it, which the platform supplies (\<open>numToString\<close>).
\<close>

definition Number_toString :: "(double \<Rightarrow> string) \<Rightarrow> double \<Rightarrow> string" where
  "Number_toString numToString d =
     (case d of
        NaN \<Rightarrow> ''NaN''
      | PosInf \<Rightarrow> ''Infinity''
      | NegInf \<Rightarrow> ''-Infinity''
      | NegZero \<Rightarrow> ''0''
      | Fin r \<Rightarrow> if of_int \<lfloor>r\<rfloor> = r \<and> \<bar>r\<bar> < 10 ^ 21 then show_int \<lfloor>r\<rfloor> else numToString d)"

text \<open>\<open>Number.prototype.toFixed(f)\<close>: \<open>n\<close> is the integer nearest to \<open>x \<times> 10\<^sup>f\<close>, the
  larger one on a tie.\<close>

definition fixed_digits :: "nat \<Rightarrow> nat \<Rightarrow> string" where
  "fixed_digits n f =
     (let m = show_nat n
      in if f = 0 then m
         else let m1 = replicate (f + 1 - length m) CHR ''0'' @ m;
                  k = length m1
              in take (k - f) m1 @ ''.'' @ drop (k - f) m1)"

definition toFixed :: "(double \<Rightarrow> string) \<Rightarrow> double \<Rightarrow> nat \<Rightarrow> string" where
  "toFixed numToString x f =
     (case x of
        NaN \<Rightarrow> ''NaN''
      | PosInf \<Rightarrow> ''Infinity''
      | NegInf \<Rightarrow> ''-Infinity''
      | NegZero \<Rightarrow> fixed_digits 0 f
      | Fin r \<Rightarrow>
          (if r < 0 then ''-'' else []) @
          (if 10 ^ 21 \<le> \<bar>r\<bar> then Number_toString numToString (Fin \<bar>r\<bar>)
           else fixed_digits (nat \<lfloor>\<bar>r\<bar> * 10 ^ f + 1 / 2\<rfloor>) f))"

fun join :: "string \<Rightarrow> string list \<Rightarrow> string" where
  "join sep [] = []"
| "join sep [s] = s"
| "join sep (s # t # ss) = s @ sep @ join sep (t # ss)"

fun sequence :: "(error + 'a) list \<Rightarrow> error + 'a list" where
  "sequence [] = Inr []"
| "sequence (x # xs) =
     (case x of
        Inl e \<Rightarrow> Inl e
      | Inr v \<Rightarrow> (case sequence xs of Inl e \<Rightarrow> Inl e | Inr vs \<Rightarrow> Inr (v # vs)))"

text \<open>
  The abstract operation \<open>ToString\<close> on these values. An object whose own \<open>toString\<close>
  property shadows the inherited method cannot be converted; an array joins its
  elements with commas, \<open>undefined\<close> and \<open>null\<close> elements as empty strings.
\<close>

fun ToString :: "(double \<Rightarrow> string) \<Rightarrow> jsval \<Rightarrow> error + string" where
  "ToString nts Undefined = Inr ''undefined''"
| "ToString nts Null = Inr ''null''"
| "ToString nts (Boolean b) = Inr (if b then ''true'' else ''false'')"
| "ToString nts (Num d) = Inr (Number_toString nts d)"
| "ToString nts (Str s) = Inr s"
| "ToString nts (Arr xs) =
     (case sequence (map (\<lambda>x. if x = Undefined \<or> x = Null then Inr [] else ToString nts x) xs) of
        Inl e \<Rightarrow> Inl e
      | Inr ss \<Rightarrow> Inr (join '','' ss))"
| "ToString nts (Obj kvs) =
     (if map_of kvs ''toString'' \<noteq> None
      then Inl (TypeError ''Cannot convert object to primitive value'')
      else Inr ''[object Object]'')"

section \<open>The environment of the plugin\<close>

text \<open>What the archive reader of the \<open>pmtiles\<close> package hands out.\<close>

record header =
  minZoom :: jsval
  maxZoom :: jsval
  minLon :: jsval
  minLat :: jsval
  maxLon :: jsval
  maxLat :: jsval
  tileType :: jsval

text \<open>A request as \<open>fetch\<close> receives it from the plugin: the URL and the \<open>Range\<close> header,
  if one is sent.\<close>

record request =
  req_url :: string
  req_range :: "string option"

text \<open>A response of \<open>fetch\<close>: the status, the \<open>Content-Range\<close> header, and what reading
  the body as a blob and as JSON gives.\<close>

record response =
  status :: nat
  content_range :: "string option"
  body_blob :: "error + blob"
  body_json :: "error + jsval"

text \<open>\<open>response.ok\<close> of the Fetch standard.\<close>

definition ok :: "response \<Rightarrow> bool" where
  "ok r = (200 \<le> status r \<and> status r \<le> 299)"

datatype db_op =
    FilesPut string
  | FilesGet string
  | FilesDelete string
  | StylesPut string
  | StylesGet string
  | StylesDelete string

text \<open>What the rendering engine says of a layer definition it is asked to add.\<close>

datatype check = Accepted | Rejected | Throws error

text \<open>
  Everything outside the repository that the plugin calls, as the functions it calls:
  the network (\<open>fetch env k req\<close> is the outcome of the \<open>k\<close>-th call of \<open>fetch\<close>, made
  with the request \<open>req\<close>), the failures of IndexedDB, the clock, the archive reader
  (\<open>PMTiles\<close> on a byte source), and the conversions of the language the model does not
  spell out (\<open>Number\<close> on a string, \<open>Number::toString\<close> on a non-integer, \<open>JSON.parse\<close>),
  and the validation of a layer definition by the rendering engine, given its sources.
\<close>

record env =
  fetch :: "nat \<Rightarrow> request \<Rightarrow> error + response"
  db_failure :: "db_op \<Rightarrow> error option"
  now :: nat
  getHeader :: "BlobSource \<Rightarrow> error + header"
  getMetadata :: "BlobSource \<Rightarrow> error + jsval"
  getZxy :: "BlobSource \<Rightarrow> double \<Rightarrow> double \<Rightarrow> double \<Rightarrow> error + byte list option"
  Number :: "string \<Rightarrow> double"
  numToString :: "double \<Rightarrow> string"
  JSON_parse :: "string \<Rightarrow> error + jsval"
  layer_check :: "(string \<times> jsval) list \<Rightarrow> jsval \<Rightarrow> check"

section \<open>db.js: the storage gateway\<close>

record file_record =
  file_name :: string
  file_blob :: blob
  file_date :: nat

record style_record =
  style_name :: string
  style :: jsval
  style_date :: nat

datatype console_arg = Text string | Thrown error

datatype console_entry = Log "console_arg list" | ErrorLog "console_arg list"

text \<open>A status as \<open>onProgress\<close> receives it: \<open>{ code, message, progress }\<close>.\<close>

datatype OFFLINE_STATUS = START | PROGRESS | COMPLETE | ERROR | ERROR_QUOTA

record status_report =
  code :: OFFLINE_STATUS
  message :: string
  progress :: "string option"

text \<open>The state the plugin changes: the two tables of the database, the console, the
  calls of \<open>onProgress\<close> and the requests sent, each in order.\<close>

record world =
  files :: "string \<rightharpoonup> file_record"
  styles :: "string \<rightharpoonup> style_record"
  console :: "console_entry list"
  reported :: "status_report list"
  requests :: "request list"

definition console_log :: "console_arg list \<Rightarrow> world \<Rightarrow> world" where
  "console_log args w = w\<lparr>console := console w @ [Log args]\<rparr>"

definition console_error :: "console_arg list \<Rightarrow> world \<Rightarrow> world" where
  "console_error args w = w\<lparr>console := console w @ [ErrorLog args]\<rparr>"

definition saveMapFile :: "env \<Rightarrow> string \<Rightarrow> blob \<Rightarrow> world \<Rightarrow> (error + unit) \<times> world" where
  "saveMapFile env name b w =
     (case db_failure env (FilesPut name) of
        None \<Rightarrow>
          (Inr (),
           console_log [Text (''Saved '' @ name @ '' to IndexedDB'')]
             (w\<lparr>files := (files w)(name \<mapsto> \<lparr>file_name = name, file_blob = b, file_date = now env\<rparr>)\<rparr>))
      | Some err \<Rightarrow>
          (Inl err, console_error [Text (''Failed to save '' @ name @ '':''), Thrown err] w))"

definition getMapFile :: "env \<Rightarrow> string \<Rightarrow> world \<Rightarrow> (error + blob option) \<times> world" where
  "getMapFile env name w =
     (case db_failure env (FilesGet name) of
        None \<Rightarrow> (Inr (case files w name of None \<Rightarrow> None | Some record \<Rightarrow> Some (file_blob record)), w)
      | Some err \<Rightarrow>
          (Inl err, console_error [Text (''Failed to get '' @ name @ '':''), Thrown err] w))"

definition saveMapStyle :: "env \<Rightarrow> string \<Rightarrow> jsval \<Rightarrow> world \<Rightarrow> (error + unit) \<times> world" where
  "saveMapStyle env name st w =
     (case db_failure env (StylesPut name) of
        None \<Rightarrow>
          (Inr (),
           console_log [Text (''Saved style for '' @ name @ '' to IndexedDB'')]
             (w\<lparr>styles := (styles w)(name \<mapsto> \<lparr>style_name = name, style = st, style_date = now env\<rparr>)\<rparr>))
      | Some err \<Rightarrow>
          (Inl err, console_error [Text (''Failed to save style for '' @ name @ '':''), Thrown err] w))"


definition deleteMapStyle :: "env \<Rightarrow> string \<Rightarrow> world \<Rightarrow> (error + unit) \<times> world" where
  "deleteMapStyle env name w =
     (case db_failure env (StylesDelete name) of
        None \<Rightarrow> (Inr (), w\<lparr>styles := (styles w)(name := None)\<rparr>)
      | Some err \<Rightarrow> (Inl err, w))"

definition deleteMapFile :: "env \<Rightarrow> string \<Rightarrow> world \<Rightarrow> (error + unit) \<times> world" where
  "deleteMapFile env name w =
     (case db_failure env (FilesDelete name) of
        None \<Rightarrow> (Inr (), w\<lparr>files := (files w)(name := None)\<rparr>)
      | Some err \<Rightarrow> (Inl err, w))"

section \<open>OfflinePlugin.registerProtocol: the handler of \<open>offline-pmtiles://\<close>\<close>

text \<open>The object under \<open>data\<close> of a metadata answer.\<close>

record tilejson_data =
  tilejson :: string
  tiles :: "string list"
  minzoom :: jsval
  maxzoom :: jsval
  bounds :: "jsval list"

text \<open>
  What the handler resolves with: \<open>{ data: {tilejson, ...} }\<close>, \<open>{ data: response.data }\<close>
  (\<open>Tile (Some bytes)\<close>), \<open>{ data: null }\<close> (\<open>Tile None\<close>), or nothing at all: the function
  runs off its end and the promise resolves with \<open>undefined\<close> (\<open>NoResult\<close>).
\<close>

datatype handler_result = Metadata tilejson_data | Tile "byte list option" | NoResult

text \<open>
  \<open>checkAborted\<close>. The abort controller, when the engine passes one, is the flag
  \<open>signal.aborted\<close> as read at each of the handler's checks, numbered in the order of the
  source text of the path taken.
\<close>

definition checkAborted :: "(nat \<Rightarrow> bool) option \<Rightarrow> nat \<Rightarrow> error + unit" where
  "checkAborted abortController k =
     (case abortController of
        None \<Rightarrow> Inr ()
      | Some aborted \<Rightarrow> if aborted k then Inl (Error ''Aborted'') else Inr ())"

text \<open>The media type is computed from \<open>header.tileType\<close> and then not used.\<close>

definition mimeType :: "header \<Rightarrow> string" where
  "mimeType h =
     (if tileType h = Num (Fin 2) then ''image/png''
      else if tileType h = Num (Fin 3) then ''image/jpeg''
      else if tileType h = Num (Fin 4) then ''image/webp''
      else ''application/vnd.mapbox-vector-tile'')"

text \<open>\<open>parseInt(v)\<close> on any value: \<open>ToString\<close>, then \<open>parseInt\<close> with no radix.\<close>

definition parseInt_val :: "env \<Rightarrow> jsval \<Rightarrow> error + jsval" where
  "parseInt_val env v =
     (case ToString (numToString env) v of
        Inl e \<Rightarrow> Inl e
      | Inr s \<Rightarrow> Inr (Num (parseInt s None)))"

text \<open>The metadata branch after the header and the metadata have been read: lines 64 to
  91 of the plugin.\<close>

definition resolve_metadata :: "env \<Rightarrow> string \<Rightarrow> header \<Rightarrow> jsval \<Rightarrow> error + handler_result" where
  "resolve_metadata env name h metadata =
     (let minZoom0 = or_else (minZoom h) (Num (Fin 0));
          maxZoom0 = or_else (maxZoom h) (Num (Fin 14));
          bounds0 = [minLon h, minLat h, maxLon h, maxLat h];
          answer = (\<lambda>mn mx bs.
            Inr (Metadata \<lparr>tilejson = ''3.0.0'',
                           tiles = [''offline-pmtiles://'' @ name @ ''/{z}/{x}/{y}''],
                           minzoom = mn, maxzoom = mx, bounds = bs\<rparr>))
      in if \<not> truthy (minLon h) \<and> \<not> truthy (maxLon h) \<and> truthy metadata
            \<and> truthy (get_prop metadata ''bounds'')
         then (case get_prop metadata ''bounds'' of
                 Str s \<Rightarrow>
                   (let b = map (\<lambda>p. Num (Number env p)) (split CHR '','' s)
                    in answer minZoom0 maxZoom0 (if length b = 4 then b else bounds0))
               | _ \<Rightarrow> Inl (TypeError ''metadata.bounds.split is not a function''))
         else if truthy metadata \<and> truthy (get_prop metadata ''minzoom'')
         then (case parseInt_val env (get_prop metadata ''minzoom'') of
                 Inl e \<Rightarrow> Inl e
               | Inr mn \<Rightarrow>
                   (case parseInt_val env (get_prop metadata ''maxzoom'') of
                      Inl e \<Rightarrow> Inl e
                    | Inr mx \<Rightarrow> answer mn mx bounds0))
         else answer minZoom0 maxZoom0 bounds0)"

definition metadata_request ::
  "env \<Rightarrow> (nat \<Rightarrow> bool) option \<Rightarrow> BlobSource \<Rightarrow> string \<Rightarrow> error + handler_result" where
  "metadata_request env abortController source name =
     (case getHeader env source of
        Inl e \<Rightarrow> Inl e
      | Inr h \<Rightarrow>
          (case getMetadata env source of
             Inl e \<Rightarrow> Inl e
           | Inr metadata \<Rightarrow>
               (case checkAborted abortController 2 of
                  Inl e \<Rightarrow> Inl e
                | Inr _ \<Rightarrow> resolve_metadata env name h metadata)))"

definition tile_request ::
  "env \<Rightarrow> (nat \<Rightarrow> bool) option \<Rightarrow> BlobSource \<Rightarrow> string list \<Rightarrow> error + handler_result" where
  "tile_request env abortController source parts =
     (let z = parseInt (parts ! 1) None;
          x = parseInt (parts ! 2) None;
          y = parseInt (parts ! 3) None
      in case checkAborted abortController 2 of
           Inl e \<Rightarrow> Inl e
         | Inr _ \<Rightarrow>
             (case getZxy env source z x y of
                Inl e \<Rightarrow> Inl e
              | Inr resp \<Rightarrow>
                  (case checkAborted abortController 3 of
                     Inl e \<Rightarrow> Inl e
                   | Inr _ \<Rightarrow>
                       (case resp of
                          Some d \<Rightarrow> Inr (Tile (Some d))
                        | None \<Rightarrow> Inr (Tile None)))))"

text \<open>The body of the \<open>try\<close> block.\<close>

definition handler_try ::
  "env \<Rightarrow> (nat \<Rightarrow> bool) option \<Rightarrow> string list \<Rightarrow> string \<Rightarrow> world
     \<Rightarrow> (error + handler_result) \<times> world" where
  "handler_try env abortController parts name w =
     (case checkAborted abortController 0 of
        Inl e \<Rightarrow> (Inl e, w)
      | Inr _ \<Rightarrow>
          (case getMapFile env name w of
             (Inl e, w1) \<Rightarrow> (Inl e, w1)
           | (Inr None, w1) \<Rightarrow> (Inl (Error (''Map '' @ name @ '' not found in storage'')), w1)
           | (Inr (Some b), w1) \<Rightarrow>
               (case checkAborted abortController 1 of
                  Inl e \<Rightarrow> (Inl e, w1)
                | Inr _ \<Rightarrow>
                    (let source = new_BlobSource b (Some name)
                     in if length parts = 1 then (metadata_request env abortController source name, w1)
                        else if length parts = 4 then (tile_request env abortController source parts, w1)
                        else (Inr NoResult, w1)))))"

text \<open>The handler that \<open>registerProtocol\<close> installs, applied to \<open>params.url\<close> and the
  abort controller: the \<open>try\<close> block, and the \<open>catch\<close> that logs every error but the
  cancellation and throws it again.\<close>

definition protocol_handler ::
  "env \<Rightarrow> string \<Rightarrow> (nat \<Rightarrow> bool) option \<Rightarrow> world \<Rightarrow> (error + handler_result) \<times> world" where
  "protocol_handler env params_url abortController w =
     (let url = replace_first ''offline-pmtiles://'' [] params_url;
          parts = split CHR ''/'' url;
          name = hd parts
      in case handler_try env abortController parts name w of
           (Inl e, w1) \<Rightarrow>
             (Inl e, if emessage e \<noteq> ''Aborted'' then console_error [Thrown e] w1 else w1)
         | (Inr r, w1) \<Rightarrow> (Inr r, w1))"

section \<open>Fixtures for the closed examples\<close>

text \<open>An archive of three bytes, a world that stores it under the name \<open>m\<close>, and an
  environment in which the database never fails, the network is down, and the archive
  reader reports a header with no bounds, no metadata and no tile.\<close>

definition blob3 :: blob where
  "blob3 = \<lparr>bytes = [1, 2, 3], unreadable = None\<rparr>"

definition world0 :: world where
  "world0 = \<lparr>files = Map.empty, styles = Map.empty, console = [], reported = [], requests = []\<rparr>"

definition world_m :: world where
  "world_m = world0\<lparr>files := [''m'' \<mapsto> \<lparr>file_name = ''m'', file_blob = blob3, file_date = 0\<rparr>]\<rparr>"

definition header0 :: header where
  "header0 = \<lparr>minZoom = Num (Fin 0), maxZoom = Num (Fin 14),
              minLon = Num (Fin 0), minLat = Num (Fin 0), maxLon = Num (Fin 0), maxLat = Num (Fin 0),
              tileType = Num (Fin 1)\<rparr>"

text \<open>\<open>Number\<close> on the four strings of the specification's example.\<close>

definition Number_example :: "string \<Rightarrow> double" where
  "Number_example s =
     (if s = ''2.0'' then Fin 2 else if s = ''48.0'' then Fin 48
      else if s = ''2.5'' then Fin (5 / 2) else if s = ''48.5'' then Fin (97 / 2)
      else if s = ''1'' then Fin 1 else if s = ''2'' then Fin 2 else if s = ''3'' then Fin 3
      else NaN)"

definition env0 :: env where
  "env0 = \<lparr>fetch = (\<lambda>k req. Inl (TypeError ''Failed to fetch'')),
           db_failure = (\<lambda>op. None),
           now = 0,
           getHeader = (\<lambda>src. Inr header0),
           getMetadata = (\<lambda>src. Inr Undefined),
           getZxy = (\<lambda>src z x y. Inr None),
           Number = Number_example,
           numToString = (\<lambda>d. []),
           JSON_parse = (\<lambda>s. Inl \<lparr>ename = ''SyntaxError'', emessage = ''Unexpected token'', inner = None\<rparr>),
           layer_check = (\<lambda>sources d. Accepted)\<rparr>"

text \<open>A server that answers every request with the whole archive and the status 200, and
  a database whose quota is exhausted.\<close>

definition response200 :: response where
  "response200 = \<lparr>status = 200, content_range = None, body_blob = Inr blob3,
                   body_json = Inl \<lparr>ename = ''SyntaxError'', emessage = ''Unexpected token'', inner = None\<rparr>\<rparr>"

definition env_full :: env where
  "env_full = env0\<lparr>fetch := (\<lambda>k req. Inr response200)\<rparr>"

definition quota_error :: error where
  "quota_error = \<lparr>ename = ''QuotaExceededError'', emessage = ''The quota has been exceeded.'', inner = None\<rparr>"

definition env_quota :: env where
  "env_quota = env_full\<lparr>db_failure := (\<lambda>op. if op = FilesPut ''m'' then Some quota_error else None)\<rparr>"

text \<open>The same server, and a database whose quota is exhausted when the transaction of
  the write is committed: the storage library then rejects the write with an
  \<open>AbortError\<close> that wraps the quota error.\<close>

definition abort_error :: error where
  "abort_error = \<lparr>ename = ''AbortError'', emessage = ''Transaction aborted'',
                  inner = Some ''QuotaExceededError''\<rparr>"

definition env_abort :: env where
  "env_abort = env_full\<lparr>db_failure := (\<lambda>op. if op = FilesPut ''m'' then Some abort_error else None)\<rparr>"

text \<open>
  A server that honours range requests: it holds the bytes \<open>src\<close> and answers every
  request with the status 206 and at most \<open>m\<close> bytes from the offset asked for (the
  number after \<open>bytes=\<close>; the start for a request without a range).
\<close>

definition range_server :: "byte list \<Rightarrow> nat \<Rightarrow> nat \<Rightarrow> request \<Rightarrow> error + response" where
  "range_server src m k req =
     (let first = (case req_range req of
                     None \<Rightarrow> 0
                   | Some h \<Rightarrow> digits_value 10 (takeWhile (is_digit 10) (drop 6 h)));
          body = take m (drop first src)
      in Inr \<lparr>status = 206,
              content_range = Some (''bytes '' @ show_nat first @ ''-'' @
                                    show_nat (first + length body - 1) @ ''/'' @ show_nat (length src)),
              body_blob = Inr \<lparr>bytes = body, unreadable = None\<rparr>,
              body_json = Inl \<lparr>ename = ''SyntaxError'', emessage = ''Unexpected token'', inner = None\<rparr>\<rparr>)"

definition env_range :: env where
  "env_range = env0\<lparr>fetch := range_server [1, 2, 3, 4, 5] 2\<rparr>"

text \<open>A server that announces a total of four bytes and answers every request with the
  same three bytes.\<close>

definition env_over :: env where
  "env_over = env0\<lparr>fetch := (\<lambda>k req. Inr \<lparr>status = 206, content_range = Some ''bytes 0-2/4'',
                                           body_blob = Inr blob3,
                                           body_json = Inl \<lparr>ename = ''SyntaxError'',
                                                             emessage = ''Unexpected token'', inner = None\<rparr>\<rparr>)\<rparr>"

section \<open>OfflinePlugin.downloadMap\<close>

definition code_name :: "OFFLINE_STATUS \<Rightarrow> string" where
  "code_name c =
     (case c of START \<Rightarrow> ''START'' | PROGRESS \<Rightarrow> ''PROGRESS'' | COMPLETE \<Rightarrow> ''COMPLETE''
      | ERROR \<Rightarrow> ''ERROR'' | ERROR_QUOTA \<Rightarrow> ''ERROR_QUOTA'')"

text \<open>
  \<open>report\<close>: the status goes to \<open>onProgress\<close> when the caller supplied one (\<open>onProgress\<close> is
  then \<open>True\<close>; the callback is taken not to throw), and to the console otherwise.
\<close>

definition report :: "bool \<Rightarrow> OFFLINE_STATUS \<Rightarrow> string \<Rightarrow> string option \<Rightarrow> world \<Rightarrow> world" where
  "report onProgress c msg prog w =
     (if onProgress then w\<lparr>reported := reported w @ [\<lparr>code = c, message = msg, progress = prog\<rparr>]\<rparr>
      else console_log
             [Text (''['' @ code_name c @ ''] '' @ msg @ '' '' @
                    (case prog of None \<Rightarrow> [] | Some p \<Rightarrow> if p \<noteq> [] then ''('' @ p @ ''%)'' else []))] w)"

text \<open>A call of \<open>fetch\<close>: the request is recorded, and its outcome is the environment's
  for the call of that number.\<close>

definition do_fetch :: "env \<Rightarrow> request \<Rightarrow> world \<Rightarrow> (error + response) \<times> world" where
  "do_fetch env req w = (fetch env (length (requests w)) req, w\<lparr>requests := requests w @ [req]\<rparr>)"

text \<open>\<open>new Blob(chunks)\<close>: the bytes of the parts in order; reading it fails when reading
  a part does.\<close>

definition new_Blob :: "blob list \<Rightarrow> blob" where
  "new_Blob chunks =
     \<lparr>bytes = concat (map bytes chunks),
      unreadable = (case filter (\<lambda>u. u \<noteq> None) (map unreadable chunks) of [] \<Rightarrow> None | u # _ \<Rightarrow> u)\<rparr>"

text \<open>The state of the chunk loop.\<close>

record session =
  chunks :: "blob list"
  receivedLength :: nat

text \<open>\<open>(receivedLength / totalSize * 100).toFixed(1)\<close>.\<close>

definition percent :: "env \<Rightarrow> nat \<Rightarrow> double \<Rightarrow> string" where
  "percent env received totalSize =
     toFixed (numToString env) (js_mul (js_div (of_size received) totalSize) (Fin 100)) 1"

text \<open>One turn of the \<open>while\<close> loop (lines 163 to 171).\<close>

definition chunk_step ::
  "env \<Rightarrow> bool \<Rightarrow> string \<Rightarrow> double \<Rightarrow> session \<Rightarrow> world \<Rightarrow> (error + session) \<times> world" where
  "chunk_step env onProgress url totalSize s w =
     (let nextStart = receivedLength s;
          headers = ''bytes='' @ show_nat nextStart @ ''-''
      in case do_fetch env \<lparr>req_url = url, req_range = Some headers\<rparr> w of
           (Inl e, w1) \<Rightarrow> (Inl e, w1)
         | (Inr resp, w1) \<Rightarrow>
             if \<not> ok resp
             then (Inl (Error (''Chunk download failed: '' @ show_nat (status resp))), w1)
             else (case body_blob resp of
                     Inl e \<Rightarrow> (Inl e, w1)
                   | Inr nextChunk \<Rightarrow>
                       (let received = receivedLength s + blob_size nextChunk
                        in (Inr \<lparr>chunks = chunks s @ [nextChunk], receivedLength = received\<rparr>,
                            report onProgress PROGRESS ''Downloading chunks...''
                              (Some (percent env received totalSize)) w1))))"

text \<open>The loop. It need not end (a server may go on answering with empty bodies):
  \<open>None\<close> is the run that never returns.\<close>

partial_function (option) chunk_loop ::
  "env \<Rightarrow> bool \<Rightarrow> string \<Rightarrow> double \<Rightarrow> session \<Rightarrow> world \<Rightarrow> ((error + session) \<times> world) option" where
  "chunk_loop env onProgress url totalSize s w =
     (if js_lt (of_size (receivedLength s)) totalSize
      then (case chunk_step env onProgress url totalSize s w of
              (Inl e, w1) \<Rightarrow> Some (Inl e, w1)
            | (Inr s1, w1) \<Rightarrow> chunk_loop env onProgress url totalSize s1 w1)
      else Some (Inr s, w))"

text \<open>Lines 155 to 160: the first chunk, the counter and the first percentage.\<close>

definition chunked_init ::
  "env \<Rightarrow> bool \<Rightarrow> double \<Rightarrow> blob \<Rightarrow> world \<Rightarrow> session \<times> world" where
  "chunked_init env onProgress totalSize firstChunk w =
     (\<lparr>chunks = [firstChunk], receivedLength = blob_size firstChunk\<rparr>,
      report onProgress PROGRESS ''Downloading chunks...''
        (Some (percent env (blob_size firstChunk) totalSize)) w)"

text \<open>Lines 149 and 150: the total size, read after the slash of \<open>Content-Range\<close>. A
  header without a slash has no \<open>parts[1]\<close>, and \<open>parseInt(undefined, 10)\<close> reads the
  string \<open>undefined\<close>.\<close>

definition content_range_total :: "string \<Rightarrow> double" where
  "content_range_total contentRange =
     (let parts = split CHR ''/'' contentRange
      in parseInt (case parts of _ # p # _ \<Rightarrow> p | _ \<Rightarrow> ''undefined'') (Some 10))"

text \<open>Lines 149 to 174: the partial-content answer with a \<open>Content-Range\<close> header.\<close>

definition download_chunked ::
  "env \<Rightarrow> bool \<Rightarrow> string \<Rightarrow> string \<Rightarrow> response \<Rightarrow> world \<Rightarrow> ((error + blob) \<times> world) option" where
  "download_chunked env onProgress url contentRange resp w =
     (let totalSize = content_range_total contentRange
      in if isNaN totalSize
         then Some (Inl (Error ''Could not determine file size from Content-Range''), w)
         else (let w1 = report onProgress PROGRESS
                          (''Detected Partial Content. Total: '' @
                           toFixed (numToString env) (js_div (js_div totalSize (Fin 1024)) (Fin 1024)) 2 @
                           '' MB'') None w
               in case body_blob resp of
                    Inl e \<Rightarrow> Some (Inl e, w1)
                  | Inr firstChunk \<Rightarrow>
                      (case chunked_init env onProgress totalSize firstChunk w1 of
                         (s0, w2) \<Rightarrow>
                           (case chunk_loop env onProgress url totalSize s0 w2 of
                              None \<Rightarrow> None
                            | Some (Inl e, w3) \<Rightarrow> Some (Inl e, w3)
                            | Some (Inr s, w3) \<Rightarrow>
                                Some (Inr (new_Blob (chunks s)),
                                      report onProgress PROGRESS ''Assembling file...'' None w3)))))"

text \<open>Step 1 of the \<open>try\<close> block (lines 136 to 178): the blob to store.\<close>

definition download_data ::
  "env \<Rightarrow> bool \<Rightarrow> string \<Rightarrow> world \<Rightarrow> ((error + blob) \<times> world) option" where
  "download_data env onProgress url w =
     (case do_fetch env \<lparr>req_url = url, req_range = None\<rparr> w of
        (Inl e, w1) \<Rightarrow> Some (Inl e, w1)
      | (Inr resp, w1) \<Rightarrow>
          if \<not> ok resp
          then Some (Inl (Error (''Download failed with status '' @ show_nat (status resp))), w1)
          else if status resp = 200
          then (case body_blob resp of
                  Inl e \<Rightarrow>
                    Some (Inl e, report onProgress PROGRESS ''Server supports full download. Fetching...'' None w1)
                | Inr b \<Rightarrow>
                    Some (Inr b, report onProgress PROGRESS ''Server supports full download. Fetching...'' None w1))
          else if status resp = 206
          then (case content_range resp of
                  None \<Rightarrow> Some (body_blob resp, w1)
                | Some contentRange \<Rightarrow>
                    if contentRange = [] then Some (body_blob resp, w1)
                    else download_chunked env onProgress url contentRange resp w1)
          else Some (body_blob resp, w1))"

text \<open>Step 2 (lines 184 to 208): the optional style. \<open>typeof styleSource === 'object'\<close>
  holds of arrays and objects (\<open>null\<close> is not truthy and never gets here).\<close>

definition resolve_style ::
  "env \<Rightarrow> bool \<Rightarrow> jsval \<Rightarrow> world \<Rightarrow> (error + jsval) \<times> world" where
  "resolve_style env onProgress styleSource w =
     (case styleSource of
        Str s \<Rightarrow>
          if trim s \<noteq> [] then
            (case JSON_parse env s of
               Inr v \<Rightarrow> (Inr v, report onProgress PROGRESS ''Parsed style from JSON string.'' None w)
             | Inl _ \<Rightarrow>
                 (case do_fetch env \<lparr>req_url = s, req_range = None\<rparr> w of
                    (Inl e, w1) \<Rightarrow> (Inl e, w1)
                  | (Inr styleResp, w1) \<Rightarrow>
                      if \<not> ok styleResp
                      then (Inl (Error (''Failed to fetch style: '' @ show_nat (status styleResp))), w1)
                      else (body_json styleResp, w1)))
          else (Inr Undefined, w)
      | Arr xs \<Rightarrow> (Inr styleSource, w)
      | Obj kvs \<Rightarrow> (Inr styleSource, w)
      | _ \<Rightarrow> (Inr Undefined, w))"

definition handle_style ::
  "env \<Rightarrow> bool \<Rightarrow> string \<Rightarrow> jsval \<Rightarrow> world \<Rightarrow> (error + unit) \<times> world" where
  "handle_style env onProgress name styleSource w =
     (if truthy styleSource then
        (case resolve_style env onProgress styleSource
                (report onProgress PROGRESS (''Processing style for '' @ name @ ''...'') None w) of
           (Inl e, w1) \<Rightarrow> (Inl e, w1)
         | (Inr styleJson, w1) \<Rightarrow>
             if truthy styleJson then
               (case saveMapStyle env name styleJson w1 of
                  (Inl e, w2) \<Rightarrow> (Inl e, w2)
                | (Inr _, w2) \<Rightarrow>
                    (Inr (), report onProgress PROGRESS (''Saved custom style for '' @ name @ ''.'') None w2))
             else (Inr (), w1))
      else (Inr (), w))"

text \<open>The \<open>try\<close> block.\<close>

definition download_try ::
  "env \<Rightarrow> bool \<Rightarrow> string \<Rightarrow> string \<Rightarrow> jsval \<Rightarrow> world \<Rightarrow> ((error + unit) \<times> world) option" where
  "download_try env onProgress url name styleSource w =
     (case download_data env onProgress url w of
        None \<Rightarrow> None
      | Some (Inl e, w1) \<Rightarrow> Some (Inl e, w1)
      | Some (Inr b, w1) \<Rightarrow>
          (case saveMapFile env name b
                  (report onProgress PROGRESS (''Saving '' @ name @ '' map data...'') None w1) of
             (Inl e, w2) \<Rightarrow> Some (Inl e, w2)
           | (Inr _, w2) \<Rightarrow>
               (case handle_style env onProgress name styleSource w2 of
                  (Inl e, w3) \<Rightarrow> Some (Inl e, w3)
                | (Inr _, w3) \<Rightarrow>
                    Some (Inr (), report onProgress COMPLETE (''Saved '' @ name @ ''! Ready to load.'') None w3))))"

text \<open>The \<open>catch\<close> block: the status for the error caught.\<close>

definition report_failure :: "bool \<Rightarrow> error \<Rightarrow> world \<Rightarrow> world" where
  "report_failure onProgress e w =
     (if ename e = ''QuotaExceededError''
      then report onProgress ERROR_QUOTA ''Storage quota exceeded! Please delete old maps.'' None w
      else report onProgress ERROR (''Error: '' @ emessage e) None w)"

text \<open>
  \<open>downloadMap(url, name, onProgress, styleSource)\<close>. An absent \<open>url\<close> is \<open>None\<close>, an absent
  \<open>styleSource\<close> is \<open>Undefined\<close>. The result \<open>Inl e\<close> is the promise rejected with \<open>e\<close>,
  \<open>Inr ()\<close> the promise fulfilled.
\<close>

definition downloadMap ::
  "env \<Rightarrow> string option \<Rightarrow> string \<Rightarrow> bool \<Rightarrow> jsval \<Rightarrow> world \<Rightarrow> ((error + unit) \<times> world) option" where
  "downloadMap env url name onProgress styleSource w =
     (case url of
        None \<Rightarrow> Some (Inr (), report onProgress ERROR ''Error: No URL provided'' None w)
      | Some u \<Rightarrow>
          if u = [] then Some (Inr (), report onProgress ERROR ''Error: No URL provided'' None w)
          else (case download_try env onProgress u name styleSource
                       (report onProgress START
                          (''Starting download of '' @ name @ '' from '' @ u @ ''...'') None w) of
                  None \<Rightarrow> None
                | Some (Inl e, w1) \<Rightarrow> Some (Inl e, report_failure onProgress e w1)
                | Some (Inr _, w1) \<Rightarrow> Some (Inr (), w1)))"

section \<open>Notions used in the statements about downloadMap\<close>

text \<open>The reports a piece of the run adds: \<open>adds P w w1\<close> says that \<open>w1\<close> reports what \<open>w\<close>
  does and then statuses that all satisfy \<open>P\<close>.\<close>

definition adds :: "(status_report \<Rightarrow> bool) \<Rightarrow> world \<Rightarrow> world \<Rightarrow> bool" where
  "adds P w w1 = (\<exists>rs. reported w1 = reported w @ rs \<and> list_all P rs)"

definition is_progress :: "status_report \<Rightarrow> bool" where
  "is_progress r = (code r = PROGRESS)"

text \<open>The status the \<open>catch\<close> block reports for an error.\<close>

definition failure_status :: "error \<Rightarrow> status_report" where
  "failure_status e =
     (if ename e = ''QuotaExceededError''
      then \<lparr>code = ERROR_QUOTA, message = ''Storage quota exceeded! Please delete old maps.'', progress = None\<rparr>
      else \<lparr>code = ERROR, message = ''Error: '' @ emessage e, progress = None\<rparr>)"


text \<open>
  The states of the chunk loop: \<open>loop_reach env onP url T init (s, w)\<close> says that the loop
  started in \<open>init\<close> stands in the state \<open>s\<close> and the world \<open>w\<close> at the head of some turn.
\<close>

inductive loop_reach ::
  "env \<Rightarrow> bool \<Rightarrow> string \<Rightarrow> double \<Rightarrow> session \<times> world \<Rightarrow> session \<times> world \<Rightarrow> bool"
  for env onP url T init where
    start: "loop_reach env onP url T init init"
  | turn: "loop_reach env onP url T init (s, w) \<Longrightarrow> js_lt (of_size (receivedLength s)) T \<Longrightarrow>
           chunk_step env onP url T s w = (Inr s1, w1) \<Longrightarrow> loop_reach env onP url T init (s1, w1)"

text \<open>The \<open>Range\<close> request the loop sends at the offset \<open>r\<close>.\<close>

definition range_request :: "string \<Rightarrow> nat \<Rightarrow> request" where
  "range_request url r = \<lparr>req_url = url, req_range = Some (''bytes='' @ show_nat r @ ''-'')\<rparr>"

text \<open>
  \<open>answers env url k r cs\<close>: from the \<open>k\<close>-th call of \<open>fetch\<close> on, the server answers the
  range requests for \<open>url\<close> that start at the offset \<open>r\<close> and go on where each answer ends
  with the chunks \<open>cs\<close>, one after the other. \<open>serves env url T k r cs\<close> says moreover
  that the counter stays below the total \<open>T\<close> before each of these chunks and reaches it
  with the last.
\<close>

fun answers :: "env \<Rightarrow> string \<Rightarrow> nat \<Rightarrow> nat \<Rightarrow> blob list \<Rightarrow> bool" where
  "answers env url k r [] = True"
| "answers env url k r (c # cs) =
     ((\<exists>resp. fetch env k (range_request url r) = Inr resp \<and> ok resp \<and> body_blob resp = Inr c)
      \<and> answers env url (Suc k) (r + blob_size c) cs)"

fun serves :: "env \<Rightarrow> string \<Rightarrow> double \<Rightarrow> nat \<Rightarrow> nat \<Rightarrow> blob list \<Rightarrow> bool" where
  "serves env url T k r [] = (\<not> js_lt (of_size r) T)"
| "serves env url T k r (c # cs) =
     (js_lt (of_size r) T
      \<and> (\<exists>resp. fetch env k (range_request url r) = Inr resp \<and> ok resp \<and> body_blob resp = Inr c)
      \<and> serves env url T (Suc k) (r + blob_size c) cs)"

text \<open>\<open>within_total env url t\<close>: no answer to a range request for \<open>url\<close> that starts
  below the offset \<open>t\<close> carries bytes past \<open>t\<close>.\<close>

definition within_total :: "env \<Rightarrow> string \<Rightarrow> nat \<Rightarrow> bool" where
  "within_total env url t =
     (\<forall>k r resp c. r < t \<longrightarrow> fetch env k (range_request url r) = Inr resp \<longrightarrow>
        body_blob resp = Inr c \<longrightarrow> r + blob_size c \<le> t)"

text \<open>
  The number a percentage with one decimal denotes, in tenths: \<open>tenths_of ''99.9''\<close> is
  999. And the tenths \<open>(r / t * 100).toFixed(1)\<close> computes for two byte counts: the
  quotient and the product are each rounded to a double, and the result to the nearest
  tenth.
\<close>

definition tenths_of :: "string \<Rightarrow> nat option" where
  "tenths_of s =
     (let a = takeWhile (\<lambda>c. c \<noteq> CHR ''.'') s;
          b = drop (length a) s
      in if a \<noteq> [] \<and> list_all (is_digit 10) a \<and> length b = 2 \<and> is_digit 10 (b ! 1)
         then Some (digits_value 10 a * 10 + the (digit_val (b ! 1)))
         else None)"

definition percent_tenths :: "nat \<Rightarrow> nat \<Rightarrow> nat" where
  "percent_tenths r t = nat \<lfloor>fl_pos (fl_pos (of_nat r / of_nat t) * 100) * 10 + 1 / 2\<rfloor>"

text \<open>Modelled from the spec: a storage error identified as quota exhaustion. The quota
  error of IndexedDB reaches the caller of the storage library as itself, or, when the
  transaction is aborted for it, inside an \<open>AbortError\<close>.\<close>

definition quota_exhaustion :: "error \<Rightarrow> bool" where
  "quota_exhaustion e = (ename e = ''QuotaExceededError'' \<or> inner e = Some ''QuotaExceededError'')"

text \<open>
  A failure inside the \<open>try\<close> block of \<open>downloadMap\<close>, entered in the world \<open>w\<close>: one of
  its three steps throws the error \<open>e\<close> and leaves the world \<open>w'\<close>. The steps are the
  download of the data (a transport error, a status that is not a success, a body that
  cannot be read, a failed chunk), the write to the database, and the style (its
  download, its parsing, its write).
\<close>

inductive try_fails ::
  "env \<Rightarrow> bool \<Rightarrow> string \<Rightarrow> string \<Rightarrow> jsval \<Rightarrow> world \<Rightarrow> error \<Rightarrow> world \<Rightarrow> bool"
  for env onProgress url name styleSource w where
  data: "download_data env onProgress url w = Some (Inl e, w1) \<Longrightarrow>
           try_fails env onProgress url name styleSource w e w1"
| storage: "download_data env onProgress url w = Some (Inr b, w1) \<Longrightarrow>
           saveMapFile env name b
             (report onProgress PROGRESS (''Saving '' @ name @ '' map data...'') None w1) = (Inl e, w2) \<Longrightarrow>
           try_fails env onProgress url name styleSource w e w2"
| style: "download_data env onProgress url w = Some (Inr b, w1) \<Longrightarrow>
           saveMapFile env name b
             (report onProgress PROGRESS (''Saving '' @ name @ '' map data...'') None w1) = (Inr u, w2) \<Longrightarrow>
           handle_style env onProgress name styleSource w2 = (Inl e, w3) \<Longrightarrow>
           try_fails env onProgress url name styleSource w e w3"

section \<open>The rendering engine\<close>

text \<open>Modelled from the spec: the map of the rendering engine, as the plugin sees it
  through \<open>getStyle\<close>, \<open>getLayer\<close> and \<open>getSource\<close>. Its style is loaded: it is the layers
  in drawing order, each under its id, and the sources, each under its id.\<close>

record maplibre =
  map_layers :: "(string \<times> jsval) list"
  map_sources :: "(string \<times> jsval) list"




text \<open>Modelled from the spec: a layer uses the source its \<open>source\<close> property names.\<close>

definition uses_source :: "string \<Rightarrow> jsval \<Rightarrow> bool" where
  "uses_source k d = (get_prop d ''source'' = Str k)"





section \<open>OfflinePlugin.loadMap\<close>


























section \<open>Notions used in the statements about loadMap\<close>



text \<open>The layers that \<open>_cleanup\<close> takes for those of the archive \<open>name\<close>.\<close>

definition prefixed :: "string \<Rightarrow> string \<times> jsval \<Rightarrow> bool" where
  "prefixed name l = startsWith (fst l) (name @ ''-'')"

text \<open>No layer other than those of the archive uses the source of the archive.\<close>

definition unshared :: "string \<Rightarrow> maplibre \<Rightarrow> bool" where
  "unshared name m =
     list_all (\<lambda>l. prefixed name l \<or> \<not> uses_source (name @ ''-source'') (snd l)) (map_layers m)"

text \<open>\<open>contained A M\<close>: every layer of the map \<open>A\<close> is a layer of the map \<open>M\<close>.\<close>

definition contained :: "maplibre \<Rightarrow> maplibre \<Rightarrow> bool" where
  "contained A M = (set (map_layers A) \<subseteq> set (map_layers M))"

text \<open>\<open>grown name A A'\<close>: the map \<open>A'\<close> is the map \<open>A\<close> with more layers, none of which has
  the id of another or, unless it is a layer of the archive, uses the source of the
  archive.\<close>

definition grown :: "string \<Rightarrow> maplibre \<Rightarrow> maplibre \<Rightarrow> bool" where
  "grown name A A' =
     (contained A A' \<and> map_sources A' = map_sources A \<and>
      (distinct (map fst (map_layers A)) \<longrightarrow> distinct (map fst (map_layers A'))) \<and>
      (unshared name A \<longrightarrow> unshared name A'))"



section \<open>Properties of the numbers: rounding to a double\<close>

lemma power_int_nonneg_eq: "0 \<le> k \<Longrightarrow> power_int (2::rat) k = 2 ^ nat k"
  by (simp add: power_int_def)

lemma ilog2_bounds:
  assumes "0 < x"
  shows "power_int 2 (ilog2 x) \<le> x \<and> x < power_int 2 (ilog2 x + 1)"
proof (cases "1 \<le> x")
  case True
  let ?n = "\<lfloor>x\<rfloor>"
  from True have n: "0 < ?n" by simp
  from bitlen_bounds [OF n] have lo: "2 ^ nat (bitlen ?n - 1) \<le> ?n" and hi: "?n < 2 ^ nat (bitlen ?n)"
    by auto
  from n have bl: "1 \<le> bitlen ?n"
    by (simp add: bitlen_alt_def)
  have "(of_int (2 ^ nat (bitlen ?n - 1)) :: rat) \<le> of_int ?n"
    using lo by (simp only: of_int_le_iff)
  also have "\<dots> \<le> x" by simp
  finally have a: "power_int 2 (ilog2 x) \<le> x"
    using True bl by (simp add: ilog2_def power_int_nonneg_eq)
  from hi have "?n + 1 \<le> 2 ^ nat (bitlen ?n)" by simp
  then have "(of_int (?n + 1) :: rat) \<le> of_int (2 ^ nat (bitlen ?n))"
    by (simp only: of_int_le_iff)
  then have "(of_int (?n + 1) :: rat) \<le> 2 ^ nat (bitlen ?n)"
    by simp
  moreover have "x < of_int (?n + 1)"
    using floor_correct [of x] by simp
  ultimately have "x < 2 ^ nat (bitlen ?n)"
    by linarith
  then have b: "x < power_int 2 (ilog2 x + 1)"
    using True bl by (simp add: ilog2_def power_int_nonneg_eq)
  from a b show ?thesis ..
next
  case False
  with assms have x: "0 < x" "x < 1" by simp_all
  let ?y = "1 / x"
  let ?c = "\<lceil>?y\<rceil>"
  from x have y: "1 < ?y" by simp
  then have c: "2 \<le> ?c"
    by (simp add: le_ceiling_iff)
  let ?k = "bitlen (?c - 1)"
  from c have c1: "0 < ?c - 1" by simp
  from bitlen_bounds [OF c1] have lo: "2 ^ nat (?k - 1) \<le> ?c - 1" and hi: "?c - 1 < 2 ^ nat ?k"
    by auto
  from c1 have k: "1 \<le> ?k"
    by (simp add: bitlen_alt_def)
  have "(of_int (2 ^ nat (?k - 1)) :: rat) \<le> of_int (?c - 1)"
    using lo by (simp only: of_int_le_iff)
  also have "\<dots> < ?y"
    by (simp add: ceiling_correct less_le_trans)
  finally have y_lo: "2 ^ nat (?k - 1) < ?y"
    by simp
  from hi have "?c \<le> 2 ^ nat ?k" by simp
  then have "(of_int ?c :: rat) \<le> of_int (2 ^ nat ?k)"
    by (simp only: of_int_le_iff)
  then have "(of_int ?c :: rat) \<le> 2 ^ nat ?k"
    by simp
  with le_of_int_ceiling [of ?y] have y_hi: "?y \<le> 2 ^ nat ?k"
    by linarith
  have il: "ilog2 x = - ?k"
    using False by (simp add: ilog2_def)
  have a: "power_int 2 (ilog2 x) \<le> x"
  proof -
    from y_hi x have "1 \<le> x * 2 ^ nat ?k"
      by (simp add: field_simps)
    then have "1 / 2 ^ nat ?k \<le> x"
      by (simp add: field_simps)
    moreover have "power_int (2::rat) (- ?k) = 1 / 2 ^ nat ?k"
      using k by (simp add: power_int_def field_simps)
    ultimately show ?thesis
      using il by simp
  qed
  have b: "x < power_int 2 (ilog2 x + 1)"
  proof -
    from y_lo x have "x * 2 ^ nat (?k - 1) < 1"
      by (simp add: field_simps)
    then have "x < 1 / 2 ^ nat (?k - 1)"
      by (simp add: field_simps)
    moreover have "power_int (2::rat) (- ?k + 1) = 1 / 2 ^ nat (?k - 1)"
    proof (cases "?k = 1")
      case True
      then show ?thesis by simp
    next
      case False
      with k have "- ?k + 1 < 0" by simp
      then have "power_int (2::rat) (- ?k + 1) = inverse 2 ^ nat (- (- ?k + 1))"
        by (simp add: power_int_def)
      also have "nat (- (- ?k + 1)) = nat (?k - 1)" by simp
      finally show ?thesis by (simp add: field_simps)
    qed
    ultimately show ?thesis
      using il by simp
  qed
  from a b show ?thesis ..
qed

lemma pow2_less_exp: "power_int (2::rat) a < power_int 2 b \<Longrightarrow> a < b"
proof (rule ccontr)
  assume lt: "power_int (2::rat) a < power_int 2 b" and "\<not> a < b"
  then have "b \<le> a" by simp
  then have "power_int (2::rat) b \<le> power_int 2 a"
    by (rule power_int_increasing) simp
  with lt show False by simp
qed

lemma ilog2_unique:
  assumes "0 < x" and "power_int 2 e \<le> x" and "x < power_int 2 (e + 1)"
  shows "ilog2 x = e"
proof -
  from ilog2_bounds [OF assms(1)] have lo: "power_int 2 (ilog2 x) \<le> x"
    and hi: "x < power_int 2 (ilog2 x + 1)" by auto
  from lo assms(3) have "power_int (2::rat) (ilog2 x) < power_int 2 (e + 1)"
    by (rule le_less_trans)
  then have a: "ilog2 x < e + 1" by (rule pow2_less_exp)
  from assms(2) hi have "power_int (2::rat) e < power_int 2 (ilog2 x + 1)"
    by (rule le_less_trans)
  then have "e < ilog2 x + 1" by (rule pow2_less_exp)
  with a show ?thesis by simp
qed

lemma ilog2_mono:
  assumes "0 < x" and "x \<le> y"
  shows "ilog2 x \<le> ilog2 y"
proof -
  from assms have y: "0 < y" by simp
  from ilog2_bounds [OF assms(1)] have "power_int 2 (ilog2 x) \<le> x" by simp
  also note assms(2)
  also from ilog2_bounds [OF y] have "y < power_int 2 (ilog2 y + 1)" by simp
  finally have "ilog2 x < ilog2 y + 1" by (rule pow2_less_exp)
  then show ?thesis by simp
qed

lemma p2_add: "power_int (2::rat) a * power_int 2 b = power_int 2 (a + b)"
  by (simp add: power_int_add)

lemma p2_div: "power_int (2::rat) a / power_int 2 b = power_int 2 (a - b)"
  by (simp add: power_int_diff)

lemma rne_cases: "rne x = \<lfloor>x\<rfloor> \<or> rne x = \<lfloor>x\<rfloor> + 1"
  by (simp add: rne_def Let_def)

lemma rne_of_int [simp]: "rne (of_int k) = k"
  by (simp add: rne_def)

lemma rne_mono:
  assumes "x \<le> y"
  shows "rne x \<le> rne y"
proof (cases "\<lfloor>x\<rfloor> < \<lfloor>y\<rfloor>")
  case True
  from rne_cases [of x] have "rne x \<le> \<lfloor>x\<rfloor> + 1" by auto
  moreover from rne_cases [of y] have "\<lfloor>y\<rfloor> \<le> rne y" by auto
  ultimately show ?thesis using True by simp
next
  case False
  with floor_mono [OF assms] have eq: "\<lfloor>x\<rfloor> = \<lfloor>y\<rfloor>" by simp
  from assms have "x - of_int \<lfloor>y\<rfloor> \<le> y - of_int \<lfloor>y\<rfloor>" by simp
  then show ?thesis
    by (auto simp: rne_def Let_def eq)
qed

lemma rne_0 [simp]: "rne 0 = 0"
  by (simp add: rne_def)

lemma rne_nonneg: "0 \<le> x \<Longrightarrow> 0 \<le> rne x"
  using rne_mono [of 0 x] by simp

lemma ulp_pos [simp]: "0 < ulp a"
  by (simp add: ulp_def)

lemma ulp_nonzero [simp]: "ulp a \<noteq> 0"
  by (simp add: ulp_def)

lemma ulp_nonneg [simp]: "0 \<le> ulp a"
  by (rule less_imp_le) (rule ulp_pos)

lemma fl_pos_nonneg:
  assumes "0 \<le> x"
  shows "0 \<le> fl_pos x"
proof -
  from assms have "0 \<le> x / ulp x" by simp
  then have "0 \<le> rne (x / ulp x)" by (rule rne_nonneg)
  then show ?thesis by (simp add: fl_pos_def)
qed

lemma fl_pos_upper:
  assumes "0 < x"
  shows "fl_pos x \<le> power_int 2 (max (ilog2 x) (- 1022) + 1)"
proof -
  let ?e = "max (ilog2 x) (- 1022)"
  have u: "ulp x = power_int 2 (?e - 52)" by (simp add: ulp_def)
  have eq: "(of_int (2 ^ 53) :: rat) * ulp x = power_int 2 (?e + 1)"
  proof -
    have "(of_int (2 ^ 53) :: rat) = power_int 2 53" by simp
    then have "(of_int (2 ^ 53) :: rat) * ulp x = power_int 2 53 * power_int 2 (?e - 52)"
      by (simp only: u)
    also have "\<dots> = power_int 2 (53 + (?e - 52))" by (rule p2_add)
    also have "53 + (?e - 52) = ?e + 1" by simp
    finally show ?thesis .
  qed
  from ilog2_bounds [OF assms] have "x < power_int 2 (ilog2 x + 1)" by simp
  also have "\<dots> \<le> power_int 2 (?e + 1)"
    by (rule power_int_increasing) simp_all
  finally have "x \<le> power_int 2 (?e + 1)" by simp
  then have "x \<le> of_int (2 ^ 53) * ulp x" by (simp only: eq)
  then have "x / ulp x \<le> of_int (2 ^ 53) * ulp x / ulp x"
    by (rule divide_right_mono) simp
  also have "(of_int (2 ^ 53) :: rat) * ulp x / ulp x = of_int (2 ^ 53)"
    by simp
  finally have "rne (x / ulp x) \<le> rne (of_int (2 ^ 53))"
    by (rule rne_mono)
  then have "rne (x / ulp x) \<le> 2 ^ 53" by (simp only: rne_of_int)
  then have "(of_int (rne (x / ulp x)) :: rat) \<le> of_int (2 ^ 53)"
    by (simp only: of_int_le_iff)
  then have "of_int (rne (x / ulp x)) * ulp x \<le> of_int (2 ^ 53) * ulp x"
    by (rule mult_right_mono) simp
  then show ?thesis
    unfolding eq fl_pos_def .
qed

lemma fl_pos_lower:
  assumes "0 < x" and "- 1022 \<le> ilog2 x"
  shows "power_int 2 (ilog2 x) \<le> fl_pos x"
proof -
  let ?e = "ilog2 x"
  have u: "ulp x = power_int 2 (?e - 52)" using assms(2) by (simp add: ulp_def max_def)
  have eq: "(of_int (2 ^ 52) :: rat) * ulp x = power_int 2 ?e"
  proof -
    have "(of_int (2 ^ 52) :: rat) = power_int 2 52" by simp
    then have "(of_int (2 ^ 52) :: rat) * ulp x = power_int 2 52 * power_int 2 (?e - 52)"
      by (simp only: u)
    also have "\<dots> = power_int 2 (52 + (?e - 52))" by (rule p2_add)
    also have "52 + (?e - 52) = ?e" by simp
    finally show ?thesis .
  qed
  from ilog2_bounds [OF assms(1)] have "power_int 2 ?e \<le> x" by simp
  then have "of_int (2 ^ 52) * ulp x \<le> x" by (simp only: eq)
  then have "of_int (2 ^ 52) * ulp x / ulp x \<le> x / ulp x"
    by (rule divide_right_mono) simp
  moreover have "(of_int (2 ^ 52) :: rat) * ulp x / ulp x = of_int (2 ^ 52)"
    by simp
  ultimately have "of_int (2 ^ 52) \<le> x / ulp x" by (simp only:)
  then have "rne (of_int (2 ^ 52)) \<le> rne (x / ulp x)"
    by (rule rne_mono)
  then have "2 ^ 52 \<le> rne (x / ulp x)" by (simp only: rne_of_int)
  then have "(of_int (2 ^ 52) :: rat) \<le> of_int (rne (x / ulp x))"
    by (simp only: of_int_le_iff)
  then have "of_int (2 ^ 52) * ulp x \<le> of_int (rne (x / ulp x)) * ulp x"
    by (rule mult_right_mono) simp
  then show ?thesis
    unfolding eq fl_pos_def .
qed

lemma fl_pos_mono_pos:
  assumes "0 < x" and "x \<le> y"
  shows "fl_pos x \<le> fl_pos y"
proof -
  from assms have y: "0 < y" by simp
  let ?ex = "max (ilog2 x) (- 1022)" and ?ey = "max (ilog2 y) (- 1022)"
  have le: "?ex \<le> ?ey" using ilog2_mono [OF assms] by linarith
  show ?thesis
  proof (cases "?ex = ?ey")
    case True
    then have u: "ulp x = ulp y" by (simp add: ulp_def)
    from assms(2) have "x / ulp y \<le> y / ulp y" by (rule divide_right_mono) simp
    then have "rne (x / ulp y) \<le> rne (y / ulp y)" by (rule rne_mono)
    then have "(of_int (rne (x / ulp y)) :: rat) \<le> of_int (rne (y / ulp y))"
      by (simp only: of_int_le_iff)
    then have "of_int (rne (x / ulp y)) * ulp y \<le> of_int (rne (y / ulp y)) * ulp y"
      by (rule mult_right_mono) simp
    then show ?thesis unfolding fl_pos_def u .
  next
    case False
    with le have lt: "?ex < ?ey" by linarith
    then have ey: "?ey = ilog2 y" by linarith
    from lt have big: "- 1022 \<le> ilog2 y" by linarith
    from lt ey have up: "?ex + 1 \<le> ilog2 y" by linarith
    from fl_pos_upper [OF assms(1)] have "fl_pos x \<le> power_int 2 (?ex + 1)" .
    also have "\<dots> \<le> power_int 2 (ilog2 y)"
      using up by (rule power_int_increasing) simp
    also from fl_pos_lower [OF y big] have "\<dots> \<le> fl_pos y" .
    finally show ?thesis .
  qed
qed

lemma fl_pos_0 [simp]: "fl_pos 0 = 0"
  by (simp add: fl_pos_def)

lemma fl_pos_mono: "0 \<le> x \<Longrightarrow> x \<le> y \<Longrightarrow> fl_pos x \<le> fl_pos y"
  by (cases "x = 0") (simp_all add: fl_pos_nonneg fl_pos_mono_pos)

lemma fl_pos_exact:
  assumes "x / ulp x = of_int k"
  shows "fl_pos x = x"
proof -
  have "ulp x \<noteq> 0" by simp
  then have "x / ulp x * ulp x = x" by simp
  with assms show ?thesis by (simp add: fl_pos_def)
qed

lemma ilog2_one [simp]: "ilog2 1 = 0"
  by (rule ilog2_unique) simp_all

lemma ilog2_of_nat_range:
  assumes "0 < n" and "n < 2 ^ 53"
  shows "0 \<le> ilog2 (of_nat n) \<and> ilog2 (of_nat n) \<le> 52"
proof -
  from assms(1) have one: "(1::rat) \<le> of_nat n" by simp
  from ilog2_mono [OF _ one] have lo: "0 \<le> ilog2 (of_nat n)" by simp
  from assms(1) have pos: "(0::rat) < of_nat n" by simp
  from assms(2) have "(of_nat n :: rat) < of_nat (2 ^ 53)"
    by (simp only: of_nat_less_iff)
  then have "(of_nat n :: rat) < power_int 2 53" by simp
  with ilog2_bounds [OF pos] have "power_int (2::rat) (ilog2 (of_nat n)) < power_int 2 53"
    by linarith
  then have "ilog2 (of_nat n) < 53" by (rule pow2_less_exp)
  with lo show ?thesis by simp
qed

lemma fl_pos_of_nat:
  assumes "n < 2 ^ 53"
  shows "fl_pos (of_nat n) = of_nat n"
proof (cases "n = 0")
  case True
  then show ?thesis by simp
next
  case False
  then have n: "0 < n" by simp
  let ?e = "ilog2 (of_nat n)"
  from ilog2_of_nat_range [OF n assms] have e: "0 \<le> ?e" "?e \<le> 52" by auto
  then have u: "ulp (of_nat n) = power_int 2 (- (52 - ?e))"
    by (simp add: ulp_def max_def)
  have "(of_nat n :: rat) / ulp (of_nat n) = of_nat n * power_int 2 (52 - ?e)"
    unfolding u by (simp only: power_int_minus divide_inverse inverse_inverse_eq)
  also have "power_int (2::rat) (52 - ?e) = 2 ^ nat (52 - ?e)"
    using e by (simp add: power_int_nonneg_exp)
  also have "(of_nat n :: rat) * 2 ^ nat (52 - ?e) = of_int (int n * 2 ^ nat (52 - ?e))"
    by simp
  finally show ?thesis by (rule fl_pos_exact)
qed

lemma fl_positive:
  assumes "0 < x" and "fl_pos x < 2 ^ 1024"
  shows "fl x = Fin (fl_pos x)"
  using assms by (auto simp: fl_def Let_def)

lemma fl_of_nat:
  assumes "n < 2 ^ 53"
  shows "fl (of_nat n) = Fin (of_nat n)"
proof (cases "n = 0")
  case True
  then show ?thesis by (simp add: fl_def)
next
  case False
  then have pos: "(0::rat) < of_nat n" by simp
  from assms have "(of_nat n :: rat) < of_nat (2 ^ 53)"
    by (simp only: of_nat_less_iff)
  also have "(of_nat (2 ^ 53) :: rat) < 2 ^ 1024" by simp
  finally have "fl_pos (of_nat n) < 2 ^ 1024"
    by (simp only: fl_pos_of_nat [OF assms])
  from fl_positive [OF pos this] show ?thesis
    by (simp only: fl_pos_of_nat [OF assms])
qed

lemma fl_numeral:
  "numeral k < (2::nat) ^ 53 \<Longrightarrow> fl (numeral k) = Fin (numeral k)"
  using fl_of_nat [of "numeral k"] by simp

lemma fl_one [simp]: "fl 1 = Fin 1"
  using fl_of_nat [of 1] by simp

section \<open>Properties of the strings: decimal digits\<close>

lemma split_not_Nil: "split sep s \<noteq> []"
  by (induction s) (auto split: list.splits)

lemma digit_chars:
  "digit_char 0 = CHR ''0''" "digit_char 1 = CHR ''1''" "digit_char 2 = CHR ''2''"
  "digit_char 3 = CHR ''3''" "digit_char 4 = CHR ''4''" "digit_char 5 = CHR ''5''"
  "digit_char 6 = CHR ''6''" "digit_char 7 = CHR ''7''" "digit_char 8 = CHR ''8''"
  "digit_char 9 = CHR ''9''" "digit_char (Suc 0) = CHR ''1''"
  by code_simp+

lemma of_char_digit_char: "d < 10 \<Longrightarrow> (of_char (digit_char d) :: nat) = 48 + d"
  by (simp add: digit_char_def)

lemma digit_val_digit_char: "d < 10 \<Longrightarrow> digit_val (digit_char d) = Some d"
  by (simp add: digit_val_def of_char_digit_char Let_def)

lemma is_digit_digit_char: "d < 10 \<Longrightarrow> is_digit 10 (digit_char d)"
  by (simp add: is_digit_def digit_val_digit_char)

lemma is_space_digit_char: "d < 10 \<Longrightarrow> \<not> is_space (digit_char d)"
  by (auto simp: is_space_def of_char_digit_char)

lemma digit_char_neq:
  assumes "d < 10" and "(of_char c :: nat) < 48 \<or> 57 < (of_char c :: nat)"
  shows "digit_char d \<noteq> c"
proof
  assume "digit_char d = c"
  then have "(of_char (digit_char d) :: nat) = of_char c" by simp
  with assms show False by (simp add: of_char_digit_char)
qed

lemma show_nat_step: "10 \<le> n \<Longrightarrow> show_nat n = show_nat (n div 10) @ [digit_char (n mod 10)]"
  by (subst show_nat.simps) simp

lemma show_nat_small: "n < 10 \<Longrightarrow> show_nat n = [digit_char n]"
  by (subst show_nat.simps) simp

lemma show_nat_not_Nil [simp]: "show_nat n \<noteq> []"
  by (subst show_nat.simps) simp

lemma show_nat_digits: "list_all (\<lambda>c. \<exists>d<10. c = digit_char d) (show_nat n)"
proof (induction n rule: show_nat.induct)
  case (1 n)
  show ?case
  proof (cases "n < 10")
    case True
    then show ?thesis by (auto simp: show_nat_small)
  next
    case False
    with 1 have "list_all (\<lambda>c. \<exists>d<10. c = digit_char d) (show_nat (n div 10))" by simp
    moreover have "n mod 10 < 10" by simp
    ultimately show ?thesis using False
      by (auto simp: show_nat_step intro!: exI [of _ "n mod 10"])
  qed
qed

lemma digits_value_snoc:
  "digits_value R (Z @ [c]) = digits_value R Z * R + the (digit_val c)"
  by (simp add: digits_value_def)

lemma digits_value_show_nat: "digits_value 10 (show_nat n) = n"
proof (induction n rule: show_nat.induct)
  case (1 n)
  show ?case
  proof (cases "n < 10")
    case True
    then show ?thesis
      by (simp add: show_nat_small digits_value_def digit_val_digit_char)
  next
    case False
    with 1 have "digits_value 10 (show_nat (n div 10)) = n div 10" by simp
    with False show ?thesis
      by (simp add: show_nat_step digits_value_snoc digit_val_digit_char)
  qed
qed

lemma takeWhile_all: "list_all P xs \<Longrightarrow> takeWhile P xs = xs"
  by (induction xs) simp_all

lemma show_nat_all_digits: "list_all (is_digit 10) (show_nat n)"
  using show_nat_digits [of n] by (auto simp: list_all_iff is_digit_digit_char)

lemma show_nat_hd:
  "\<exists>d cs. d < 10 \<and> show_nat n = digit_char d # cs"
  using show_nat_digits [of n] show_nat_not_Nil [of n]
  by (cases "show_nat n") auto

lemma show_nat_no_char:
  assumes "(of_char c :: nat) < 48 \<or> 57 < (of_char c :: nat)"
  shows "c \<notin> set (show_nat n)"
proof
  assume "c \<in> set (show_nat n)"
  with show_nat_digits [of n] obtain d where "d < 10" "c = digit_char d"
    by (auto simp: list_all_iff)
  with digit_char_neq [OF _ assms, of d] show False by simp
qed

lemma parseInt_digits:
  assumes "\<not> is_space c" and "c \<noteq> CHR ''+''" and "c \<noteq> CHR ''-''"
    and "list_all (is_digit 10) (c # cs)"
  shows "parseInt (c # cs) (Some 10) =
     (if digits_value 10 (c # cs) = 0 then Fin 0 else fl (of_nat (digits_value 10 (c # cs))))"
proof -
  from assms(4) have c: "is_digit 10 c" and "list_all (is_digit 10) cs"
    by simp_all
  then have tw: "takeWhile (is_digit 10) cs = cs"
    by (simp add: takeWhile_all)
  from assms(1-3) c show ?thesis
    by (simp add: parseInt_def Let_def signed_zero_def tw)
qed

text \<open>\<open>parseInt\<close> with the radix 10 reads the decimal digits of a number back.\<close>

lemma parseInt_show_nat:
  "parseInt (show_nat n) (Some 10) = (if n = 0 then Fin 0 else fl (of_nat n))"
proof -
  obtain d cs where d: "d < 10" and sn: "show_nat n = digit_char d # cs"
    using show_nat_hd by blast
  have plus: "digit_char d \<noteq> CHR ''+''"
    by (rule digit_char_neq [OF d]) simp
  have minus: "digit_char d \<noteq> CHR ''-''"
    by (rule digit_char_neq [OF d]) simp
  have "list_all (is_digit 10) (digit_char d # cs)"
    using show_nat_all_digits [of n] by (simp only: sn)
  from parseInt_digits [OF is_space_digit_char [OF d] plus minus this]
  show ?thesis
    by (simp only: sn [symmetric] digits_value_show_nat)
qed

lemma parseInt_show_nat_exact:
  "n < 2 ^ 53 \<Longrightarrow> parseInt (show_nat n) (Some 10) = of_size n"
  by (simp add: parseInt_show_nat of_size_def fl_of_nat)

lemma split_no_sep: "sep \<notin> set s \<Longrightarrow> split sep s = [s]"
  by (induction s) auto

lemma split_append_sep:
  "sep \<notin> set a \<Longrightarrow> split sep (a @ sep # b) = a # split sep b"
  by (induction a) (auto simp: split_not_Nil split: list.splits)

text \<open>The total a \<open>Content-Range\<close> header of the usual form announces.\<close>

lemma content_range_total_usual:
  assumes "CHR ''/'' \<notin> set unit_range" and "n < 2 ^ 53"
  shows "content_range_total (unit_range @ ''/'' @ show_nat n) = of_size n"
proof -
  have "CHR ''/'' \<notin> set (show_nat n)"
    by (rule show_nat_no_char) simp
  then have "split CHR ''/'' (unit_range @ ''/'' @ show_nat n) = [unit_range, show_nat n]"
    using assms(1) by (simp add: split_append_sep split_no_sep)
  then show ?thesis
    by (simp add: content_range_total_def parseInt_show_nat_exact [OF assms(2)])
qed

section \<open>Properties of BlobSource\<close>

lemma blob_slice_bytes: "bytes (blob_slice b s e) = take (e - s) (drop s (bytes b))"
  by (auto simp: blob_slice_def blob_size_def Let_def min_def)

lemma blob_slice_unreadable: "unreadable (blob_slice b s e) = unreadable b"
  by (simp add: blob_slice_def Let_def)

lemma getBytes_result:
  "getBytes src offset len =
     (case unreadable (blob src) of
        Some e \<Rightarrow> Inl e
      | None \<Rightarrow> Inr (take len (drop offset (bytes (blob src)))))"
  by (simp add: getBytes_def arrayBuffer_def blob_slice_bytes blob_slice_unreadable
      split: option.splits)

text \<open>
  Claim C9, as stated, at a blob of three bytes read at offset 2 for 5 bytes: the read
  succeeds and returns one byte, fewer than the five requested.
\<close>

theorem getBytes_short_read_counterexample:
  "getBytes (new_BlobSource \<lparr>bytes = [1, 2, 3], unreadable = None\<rparr> None) 2 5 = Inr [3]
   \<and> length [3 :: byte] < 5"
  by (simp add: getBytes_result new_BlobSource_def)

text \<open>
  Claim C9, amended: a read of \<open>length\<close> bytes at \<open>offset\<close> fails exactly when the
  blob cannot be read, and otherwise returns the bytes of the blob from \<open>offset\<close> up to
  \<open>offset + length\<close> or the end of the blob, whichever comes first: as many bytes as
  requested when the range lies inside the blob, fewer (possibly none) when it runs past
  the end. The range is never checked against the size of the blob.
\<close>

theorem getBytes_clamped_range:
  "getBytes src offset len =
     (case unreadable (blob src) of
        Some e \<Rightarrow> Inl e
      | None \<Rightarrow> Inr (take len (drop offset (bytes (blob src)))))
   \<and> length (take len (drop offset (bytes (blob src)))) = min len (blob_size (blob src) - offset)"
  by (simp add: getBytes_result blob_size_def)

section \<open>Properties of the protocol handler\<close>

lemma truthy_get_prop: "truthy (get_prop v k) \<Longrightarrow> truthy v"
  by (cases v) simp_all

lemma metadata_request_kind:
  "metadata_request env ac source name = Inr res \<Longrightarrow> \<exists>d. res = Metadata d"
  by (auto simp: metadata_request_def resolve_metadata_def Let_def
      split: sum.splits jsval.splits if_splits)

lemma tile_request_kind:
  "tile_request env ac source parts = Inr res \<Longrightarrow> \<exists>t. res = Tile t"
  by (auto simp: tile_request_def Let_def split: sum.splits option.splits)

text \<open>
  Claim C4, as stated, at the path \<open>m/1/2\<close> (three components) of a stored archive: the
  handler raises nothing; it resolves with no result.
\<close>

theorem three_components_counterexample:
  "protocol_handler env0 ''offline-pmtiles://m/1/2'' None world_m = (Inr NoResult, world_m)"
  by (simp add: protocol_handler_def handler_try_def getMapFile_def Let_def env0_def world_m_def
      world0_def checkAborted_def startsWith_def)

text \<open>
  Claim C4, amended. For a request whose archive is stored and which is not cancelled
  at the two checks around the lookup of the archive, the number of components of the
  path decides alone: one component is answered as a metadata request, four as a tile
  request (an error of either is logged unless it is the cancellation, and thrown
  again), and for every other number the handler reads nothing from the archive, logs
  nothing and resolves with no result and no error.
\<close>

theorem handler_routing:
  assumes "db_failure env (FilesGet (hd (split CHR ''/'' (replace_first ''offline-pmtiles://'' [] url)))) = None"
    and "files w (hd (split CHR ''/'' (replace_first ''offline-pmtiles://'' [] url))) = Some r"
    and "checkAborted ac 0 = Inr ()" and "checkAborted ac 1 = Inr ()"
  shows "protocol_handler env url ac w =
     (let parts = split CHR ''/'' (replace_first ''offline-pmtiles://'' [] url);
          source = new_BlobSource (file_blob r) (Some (hd parts))
      in if length parts = 1 then
           (case metadata_request env ac source (hd parts) of
              Inl e \<Rightarrow> (Inl e, if emessage e \<noteq> ''Aborted'' then console_error [Thrown e] w else w)
            | Inr res \<Rightarrow> (Inr res, w))
         else if length parts = 4 then
           (case tile_request env ac source parts of
              Inl e \<Rightarrow> (Inl e, if emessage e \<noteq> ''Aborted'' then console_error [Thrown e] w else w)
            | Inr res \<Rightarrow> (Inr res, w))
         else (Inr NoResult, w))"
  using assms
  by (simp add: protocol_handler_def handler_try_def getMapFile_def Let_def split: sum.splits)

theorem handler_routing_witness:
  "protocol_handler env0 ''offline-pmtiles://m'' None world_m =
     (Inr (Metadata \<lparr>tilejson = ''3.0.0'', tiles = [''offline-pmtiles://m/{z}/{x}/{y}''],
                     minzoom = Num (Fin 0), maxzoom = Num (Fin 14),
                     bounds = [Num (Fin 0), Num (Fin 0), Num (Fin 0), Num (Fin 0)]\<rparr>), world_m)
   \<and> protocol_handler env0 ''offline-pmtiles://m/7/1/2'' None world_m = (Inr (Tile None), world_m)
   \<and> protocol_handler env0 ''offline-pmtiles://m/7/1/2/9'' None world_m = (Inr NoResult, world_m)"
proof -
  have db: "db_failure env0 op = None" for op
    by (simp add: env0_def)
  have ca: "checkAborted None k = Inr ()" for k
    by (simp add: checkAborted_def)
  have f1: "files world_m (hd (split CHR ''/'' (replace_first ''offline-pmtiles://'' [] ''offline-pmtiles://m'')))
      = Some \<lparr>file_name = ''m'', file_blob = blob3, file_date = 0\<rparr>"
    by (simp add: world_m_def world0_def startsWith_def)
  have f2: "files world_m (hd (split CHR ''/'' (replace_first ''offline-pmtiles://'' [] ''offline-pmtiles://m/7/1/2'')))
      = Some \<lparr>file_name = ''m'', file_blob = blob3, file_date = 0\<rparr>"
    by (simp add: world_m_def world0_def startsWith_def)
  have f3: "files world_m (hd (split CHR ''/'' (replace_first ''offline-pmtiles://'' [] ''offline-pmtiles://m/7/1/2/9'')))
      = Some \<lparr>file_name = ''m'', file_blob = blob3, file_date = 0\<rparr>"
    by (simp add: world_m_def world0_def startsWith_def)
  show ?thesis
    unfolding handler_routing [OF db f1 ca ca] handler_routing [OF db f2 ca ca]
      handler_routing [OF db f3 ca ca]
    by (simp add: startsWith_def metadata_request_def tile_request_def resolve_metadata_def
        checkAborted_def env0_def header0_def or_else_def Let_def)
qed

text \<open>
  Claim C8, as stated, at a tile request for a stored archive that has no tile at the
  coordinate, cancelled while the archive reader looks the tile up: the handler raises
  the error \<open>Aborted\<close> (the check of lines 98 to 100 stands before the empty result).
\<close>

theorem absent_tile_cancelled_counterexample:
  "getZxy env0 (new_BlobSource blob3 (Some ''m'')) (parseInt ''7'' None) (parseInt ''1'' None)
     (parseInt ''2'' None) = Inr None
   \<and> protocol_handler env0 ''offline-pmtiles://m/7/1/2'' (Some (\<lambda>k. k = 3)) world_m
     = (Inl (Error ''Aborted''), world_m)"
  by (simp add: protocol_handler_def handler_try_def getMapFile_def tile_request_def Let_def
      env0_def world_m_def world0_def checkAborted_def startsWith_def Error_def)

text \<open>
  Claim C8, amended. A tile request (a path of four components) for a stored archive in
  which the archive reader finds no tile at the parsed coordinate, and which is not
  cancelled at any of the four checks of the handler, is answered with the explicit
  empty result \<open>{ data: null }\<close>; nothing is raised and nothing is logged. When the
  request is cancelled at one of the checks, the handler raises the error \<open>Aborted\<close>
  instead, which it does not log: the absent tile is no error, the cancellation is.
\<close>

theorem absent_tile_empty_result:
  assumes "split CHR ''/'' (replace_first ''offline-pmtiles://'' [] url) = [name, zs, xs, ys]"
    and "db_failure env (FilesGet name) = None"
    and "files w name = Some r"
    and "getZxy env (new_BlobSource (file_blob r) (Some name))
           (parseInt zs None) (parseInt xs None) (parseInt ys None) = Inr None"
  shows "protocol_handler env url ac w =
     (if checkAborted ac 0 = Inr () \<and> checkAborted ac 1 = Inr ()
         \<and> checkAborted ac 2 = Inr () \<and> checkAborted ac 3 = Inr ()
      then (Inr (Tile None), w)
      else (Inl (Error ''Aborted''), w))"
  using assms
  by (auto simp: protocol_handler_def handler_try_def getMapFile_def tile_request_def Let_def
      checkAborted_def Error_def split: sum.splits option.splits)

theorem absent_tile_empty_result_witness:
  "protocol_handler env0 ''offline-pmtiles://m/7/1/2'' (Some (\<lambda>k. False)) world_m
     = (Inr (Tile None), world_m)
   \<and> protocol_handler env0 ''offline-pmtiles://m/7/1/2'' (Some (\<lambda>k. k = 1)) world_m
     = (Inl (Error ''Aborted''), world_m)"
proof -
  have p: "split CHR ''/'' (replace_first ''offline-pmtiles://'' [] ''offline-pmtiles://m/7/1/2'')
      = [''m'', ''7'', ''1'', ''2'']"
    by (simp add: startsWith_def)
  have db: "db_failure env0 (FilesGet ''m'') = None"
    by (simp add: env0_def)
  have f: "files world_m ''m'' = Some \<lparr>file_name = ''m'', file_blob = blob3, file_date = 0\<rparr>"
    by (simp add: world_m_def world0_def)
  have z: "getZxy env0 (new_BlobSource (file_blob \<lparr>file_name = ''m'', file_blob = blob3, file_date = 0\<rparr>) (Some ''m''))
      (parseInt ''7'' None) (parseInt ''1'' None) (parseInt ''2'' None) = Inr None"
    by (simp add: env0_def)
  show ?thesis
    unfolding absent_tile_empty_result [OF p db f z]
    by (simp add: checkAborted_def)
qed

text \<open>
  Claim C5, as stated, at an archive whose header longitudes are zero and whose metadata
  declares three bounds (not four) and the zoom range 2 to 5: the bounds fallback does not
  apply, and yet the zoom values answered are the header's 0 and 14.
\<close>

theorem three_bounds_counterexample:
  "resolve_metadata env0 ''m'' header0
     (Obj [(''bounds'', Str ''1,2,3''), (''minzoom'', Num (Fin 2)), (''maxzoom'', Num (Fin 5))])
   = Inr (Metadata \<lparr>tilejson = ''3.0.0'', tiles = [''offline-pmtiles://m/{z}/{x}/{y}''],
                    minzoom = Num (Fin 0), maxzoom = Num (Fin 14),
                    bounds = [Num (Fin 0), Num (Fin 0), Num (Fin 0), Num (Fin 0)]\<rparr>)"
  by (simp add: resolve_metadata_def header0_def or_else_def Let_def)

text \<open>
  Claim C5, amended. When both header longitudes are zero or absent and the metadata
  declares a non-empty \<open>bounds\<close> string, the bounds branch is taken: the resolved bounds
  are the numbers of its comma-separated components when there are exactly four, and
  the header's otherwise; the zoom values are the header's (0 and 14 by default)
  whatever the metadata declares. When the bounds branch is not taken (a header
  longitude is non-zero, or the metadata declares no bounds) and the metadata declares a
  \<open>minzoom\<close> that is neither zero nor empty, the zoom values are \<open>parseInt\<close> of the declared
  \<open>minzoom\<close> and \<open>maxzoom\<close>, and the bounds are the header's. So the two overrides never
  both apply.
\<close>

theorem resolve_metadata_policy:
  "(\<not> truthy (minLon h) \<and> \<not> truthy (maxLon h) \<and> get_prop metadata ''bounds'' = Str s \<and> s \<noteq> [] \<longrightarrow>
      resolve_metadata env name h metadata =
        Inr (Metadata \<lparr>tilejson = ''3.0.0'', tiles = [''offline-pmtiles://'' @ name @ ''/{z}/{x}/{y}''],
               minzoom = or_else (minZoom h) (Num (Fin 0)),
               maxzoom = or_else (maxZoom h) (Num (Fin 14)),
               bounds = (if length (split CHR '','' s) = 4
                         then map (\<lambda>p. Num (Number env p)) (split CHR '','' s)
                         else [minLon h, minLat h, maxLon h, maxLat h])\<rparr>))
   \<and> ((truthy (minLon h) \<or> truthy (maxLon h) \<or> \<not> truthy (get_prop metadata ''bounds''))
        \<and> truthy (get_prop metadata ''minzoom'')
        \<and> parseInt_val env (get_prop metadata ''minzoom'') = Inr mn
        \<and> parseInt_val env (get_prop metadata ''maxzoom'') = Inr mx \<longrightarrow>
      resolve_metadata env name h metadata =
        Inr (Metadata \<lparr>tilejson = ''3.0.0'', tiles = [''offline-pmtiles://'' @ name @ ''/{z}/{x}/{y}''],
               minzoom = mn, maxzoom = mx,
               bounds = [minLon h, minLat h, maxLon h, maxLat h]\<rparr>))"
proof (intro conjI impI)
  assume a: "\<not> truthy (minLon h) \<and> \<not> truthy (maxLon h) \<and> get_prop metadata ''bounds'' = Str s \<and> s \<noteq> []"
  then have "truthy (get_prop metadata ''bounds'')"
    by simp
  then have "truthy metadata"
    by (rule truthy_get_prop)
  with a show "resolve_metadata env name h metadata =
        Inr (Metadata \<lparr>tilejson = ''3.0.0'', tiles = [''offline-pmtiles://'' @ name @ ''/{z}/{x}/{y}''],
               minzoom = or_else (minZoom h) (Num (Fin 0)),
               maxzoom = or_else (maxZoom h) (Num (Fin 14)),
               bounds = (if length (split CHR '','' s) = 4
                         then map (\<lambda>p. Num (Number env p)) (split CHR '','' s)
                         else [minLon h, minLat h, maxLon h, maxLat h])\<rparr>)"
    by (simp add: resolve_metadata_def Let_def)
next
  assume b: "(truthy (minLon h) \<or> truthy (maxLon h) \<or> \<not> truthy (get_prop metadata ''bounds''))
        \<and> truthy (get_prop metadata ''minzoom'')
        \<and> parseInt_val env (get_prop metadata ''minzoom'') = Inr mn
        \<and> parseInt_val env (get_prop metadata ''maxzoom'') = Inr mx"
  then have "truthy metadata"
    using truthy_get_prop by blast
  with b show "resolve_metadata env name h metadata =
        Inr (Metadata \<lparr>tilejson = ''3.0.0'', tiles = [''offline-pmtiles://'' @ name @ ''/{z}/{x}/{y}''],
               minzoom = mn, maxzoom = mx,
               bounds = [minLon h, minLat h, maxLon h, maxLat h]\<rparr>)"
    by (auto simp: resolve_metadata_def Let_def)
qed

text \<open>The witness takes the example of the specification (header bounds all zero,
  metadata bounds \<open>2.0,48.0,2.5,48.5\<close>) for the first case, and a header with longitudes
  1 and 3 with the declared zoom range 2 to 5 for the second.\<close>

theorem resolve_metadata_policy_witness:
  "resolve_metadata env0 ''m'' header0 (Obj [(''bounds'', Str ''2.0,48.0,2.5,48.5''), (''minzoom'', Num (Fin 2))])
     = Inr (Metadata \<lparr>tilejson = ''3.0.0'', tiles = [''offline-pmtiles://m/{z}/{x}/{y}''],
              minzoom = Num (Fin 0), maxzoom = Num (Fin 14),
              bounds = [Num (Fin 2), Num (Fin 48), Num (Fin (5 / 2)), Num (Fin (97 / 2))]\<rparr>)
   \<and> resolve_metadata env0 ''m'' (header0\<lparr>minLon := Num (Fin 1), maxLon := Num (Fin 3)\<rparr>)
       (Obj [(''minzoom'', Num (Fin 2)), (''maxzoom'', Str ''5'')])
     = Inr (Metadata \<lparr>tilejson = ''3.0.0'', tiles = [''offline-pmtiles://m/{z}/{x}/{y}''],
              minzoom = Num (Fin 2), maxzoom = Num (Fin 5),
              bounds = [Num (Fin 1), Num (Fin 0), Num (Fin 3), Num (Fin 0)]\<rparr>)"
proof -
  have a: "\<not> truthy (minLon header0) \<and> \<not> truthy (maxLon header0)
      \<and> get_prop (Obj [(''bounds'', Str ''2.0,48.0,2.5,48.5''), (''minzoom'', Num (Fin 2))]) ''bounds''
          = Str ''2.0,48.0,2.5,48.5''
      \<and> ''2.0,48.0,2.5,48.5'' \<noteq> []"
    by (simp add: header0_def)
  have two: "parseInt ''2'' None = Fin 2"
    by (simp add: parseInt_def Let_def is_space_def startsWith_def is_digit_def digit_val_def
        digits_value_def fl_numeral)
  have five: "parseInt ''5'' None = Fin 5"
    by (simp add: parseInt_def Let_def is_space_def startsWith_def is_digit_def digit_val_def
        digits_value_def fl_numeral)
  have shw: "show_int 2 = ''2''"
    by code_simp
  have b: "(truthy (minLon (header0\<lparr>minLon := Num (Fin 1), maxLon := Num (Fin 3)\<rparr>))
        \<or> truthy (maxLon (header0\<lparr>minLon := Num (Fin 1), maxLon := Num (Fin 3)\<rparr>))
        \<or> \<not> truthy (get_prop (Obj [(''minzoom'', Num (Fin 2)), (''maxzoom'', Str ''5'')]) ''bounds''))
      \<and> truthy (get_prop (Obj [(''minzoom'', Num (Fin 2)), (''maxzoom'', Str ''5'')]) ''minzoom'')
      \<and> parseInt_val env0 (get_prop (Obj [(''minzoom'', Num (Fin 2)), (''maxzoom'', Str ''5'')]) ''minzoom'')
          = Inr (Num (Fin 2))
      \<and> parseInt_val env0 (get_prop (Obj [(''minzoom'', Num (Fin 2)), (''maxzoom'', Str ''5'')]) ''maxzoom'')
          = Inr (Num (Fin 5))"
    by (simp add: parseInt_val_def Number_toString_def two five shw)
  from resolve_metadata_policy [where env = env0 and name = "''m''", THEN conjunct1, rule_format, OF a]
    resolve_metadata_policy [where env = env0 and name = "''m''", THEN conjunct2, rule_format, OF b]
  show ?thesis
    by (simp add: header0_def or_else_def env0_def Number_example_def)
qed

section \<open>Properties of downloadMap: what a run reports\<close>

lemma report_fields [simp]:
  "files (report onP c m p w) = files w"
  "styles (report onP c m p w) = styles w"
  "requests (report onP c m p w) = requests w"
  "reported (report True c m p w) = reported w @ [\<lparr>code = c, message = m, progress = p\<rparr>]"
  "reported (report False c m p w) = reported w"
  by (simp_all add: report_def console_log_def)

lemma do_fetch_fields [simp]:
  "fst (do_fetch env req w) = fetch env (length (requests w)) req"
  "files (snd (do_fetch env req w)) = files w"
  "styles (snd (do_fetch env req w)) = styles w"
  "reported (snd (do_fetch env req w)) = reported w"
  "requests (snd (do_fetch env req w)) = requests w @ [req]"
  by (simp_all add: do_fetch_def)

lemma do_fetch_eq: "do_fetch env req w = (r, w1) \<Longrightarrow>
    r = fetch env (length (requests w)) req \<and> files w1 = files w \<and> styles w1 = styles w
    \<and> reported w1 = reported w \<and> requests w1 = requests w @ [req]"
  by (auto simp: do_fetch_def)

lemma adds_refl: "adds P w w"
  by (simp add: adds_def)

lemma adds_same: "reported w1 = reported w \<Longrightarrow> adds P w w1"
  by (simp add: adds_def)

lemma adds_trans: "adds P w w1 \<Longrightarrow> adds P w1 w2 \<Longrightarrow> adds P w w2"
  by (auto simp: adds_def)

lemma adds_report: "P \<lparr>code = c, message = m, progress = p\<rparr> \<Longrightarrow> adds P w (report onP c m p w)"
  by (cases onP) (simp_all add: adds_def)


lemma chunk_step_adds:
  "chunk_step env onP url T s w = (res, w1) \<Longrightarrow> adds is_progress w w1"
  by (cases onP)
    (auto simp: chunk_step_def do_fetch_def report_def console_log_def adds_def is_progress_def
      Let_def split: sum.splits if_splits)

text \<open>An invariant of the loop holds of every state the loop returns with.\<close>

lemma chunk_loop_rule:
  assumes run: "chunk_loop env onP url T s w = Some (res, w')"
    and init: "I s w"
    and step: "\<And>s w s1 w1. I s w \<Longrightarrow> js_lt (of_size (receivedLength s)) T \<Longrightarrow>
                 chunk_step env onP url T s w = (Inr s1, w1) \<Longrightarrow> I s1 w1"
    and fail: "\<And>s w e w1. I s w \<Longrightarrow> js_lt (of_size (receivedLength s)) T \<Longrightarrow>
                 chunk_step env onP url T s w = (Inl e, w1) \<Longrightarrow> Q (Inl e) w1"
    and stop: "\<And>s w. I s w \<Longrightarrow> \<not> js_lt (of_size (receivedLength s)) T \<Longrightarrow> Q (Inr s) w"
  shows "Q res w'"
proof -
  define y where "y = (res, w')"
  with run have run_y: "chunk_loop env onP url T s w = Some y"
    by simp
  let ?P = "\<lambda>env onP url T s w y. \<forall>e. env = e \<longrightarrow> I s w \<longrightarrow>
         (\<forall>s w s1 w1. I s w \<longrightarrow> js_lt (of_size (receivedLength s)) T \<longrightarrow>
                 chunk_step e onP url T s w = (Inr s1, w1) \<longrightarrow> I s1 w1) \<longrightarrow>
         (\<forall>s w e' w1. I s w \<longrightarrow> js_lt (of_size (receivedLength s)) T \<longrightarrow>
                 chunk_step e onP url T s w = (Inl e', w1) \<longrightarrow> Q (Inl e') w1) \<longrightarrow>
         (\<forall>s w. I s w \<longrightarrow> \<not> js_lt (of_size (receivedLength s)) T \<longrightarrow> Q (Inr s) w) \<longrightarrow>
         Q (fst y) (snd y)"
  have "?P env onP url T s w y"
  proof (rule chunk_loop.raw_induct [where P = ?P, OF _ run_y], goal_cases)
    case (1 chunk_loop env onProgress url totalSize s w y)
    show ?case
    proof (intro allI impI)
      fix e
      assume e: "env = e" and i: "I s w"
        and st: "\<forall>s w s1 w1. I s w \<longrightarrow> js_lt (of_size (receivedLength s)) totalSize \<longrightarrow>
                 chunk_step e onProgress url totalSize s w = (Inr s1, w1) \<longrightarrow> I s1 w1"
        and fa: "\<forall>s w e' w1. I s w \<longrightarrow> js_lt (of_size (receivedLength s)) totalSize \<longrightarrow>
                 chunk_step e onProgress url totalSize s w = (Inl e', w1) \<longrightarrow> Q (Inl e') w1"
        and dn: "\<forall>s w. I s w \<longrightarrow> \<not> js_lt (of_size (receivedLength s)) totalSize \<longrightarrow> Q (Inr s) w"
      show "Q (fst y) (snd y)"
      proof (cases "js_lt (of_size (receivedLength s)) totalSize")
        case False
        with 1(2) have "y = (Inr s, w)" by simp
        with dn i False show ?thesis by simp
      next
        case True
        obtain r w1 where cs: "chunk_step env onProgress url totalSize s w = (r, w1)"
          by (cases "chunk_step env onProgress url totalSize s w")
        show ?thesis
        proof (cases r)
          case (Inl e')
          with 1(2) True cs have "y = (Inl e', w1)" by simp
          with fa i True cs Inl e show ?thesis by simp
        next
          case (Inr s1)
          with 1(2) True cs have rec: "chunk_loop env onProgress url totalSize s1 w1 = Some y"
            by simp
          from st i True cs Inr e have "I s1 w1" by blast
          with 1(1) [OF rec] e st fa dn show ?thesis by blast
        qed
      qed
    qed
  qed
  with init step fail stop show ?thesis
    unfolding y_def by simp
qed

lemma chunk_loop_adds:
  assumes "chunk_loop env onP url T s w = Some (res, w')"
  shows "adds is_progress w w'"
proof (rule chunk_loop_rule [OF assms, where I = "\<lambda>s w1. adds is_progress w w1"
      and Q = "\<lambda>r w1. adds is_progress w w1"], goal_cases)
  case 1
  show ?case by (rule adds_refl)
next
  case (2 s w0 s1 w1)
  then show ?case by (blast intro: adds_trans chunk_step_adds)
next
  case (3 s w0 e w1)
  then show ?case by (blast intro: adds_trans chunk_step_adds)
next
  case (4 s w0)
  then show ?case by simp
qed

lemma download_chunked_adds:
  "download_chunked env onP url cr resp w = Some (res, w') \<Longrightarrow> adds is_progress w w'"
  by (auto simp: download_chunked_def chunked_init_def Let_def is_progress_def
      split: if_splits sum.splits option.splits prod.splits
      intro!: adds_refl adds_report
      intro: adds_trans [OF adds_report adds_trans [OF adds_report chunk_loop_adds]]
        adds_trans [OF adds_report adds_trans [OF adds_report adds_trans [OF chunk_loop_adds adds_report]]])

lemma download_data_adds:
  "download_data env onP url w = Some (res, w') \<Longrightarrow> adds is_progress w w'"
  by (auto simp: download_data_def is_progress_def
      split: prod.splits sum.splits if_splits option.splits
      dest!: do_fetch_eq download_chunked_adds
      intro: adds_same adds_trans [OF adds_same adds_report] adds_trans [OF adds_same])

lemma handle_style_adds:
  "handle_style env onP name st w = (res, w1) \<Longrightarrow> adds is_progress w w1"
  by (cases onP)
    (auto simp: handle_style_def resolve_style_def saveMapStyle_def do_fetch_def report_def
      console_log_def console_error_def adds_def is_progress_def
      split: sum.splits if_splits jsval.splits option.splits prod.splits)

lemma saveMapFile_reported:
  "saveMapFile env name b w = (res, w1) \<Longrightarrow> reported w1 = reported w"
  by (auto simp: saveMapFile_def console_log_def console_error_def split: option.splits)

lemma download_try_adds_failure:
  assumes "download_try env onP u name st w = Some (Inl e, w1)"
  shows "adds is_progress w w1"
proof (cases "download_data env onP u w")
  case None
  with assms show ?thesis by (simp add: download_try_def)
next
  case (Some y)
  obtain r wd where y: "y = (r, wd)" by (cases y)
  from Some y have dd: "adds is_progress w wd"
    by (simp add: download_data_adds)
  show ?thesis
  proof (cases r)
    case (Inl e')
    with assms Some y dd show ?thesis by (simp add: download_try_def)
  next
    case (Inr b)
    let ?ws = "report onP PROGRESS (''Saving '' @ name @ '' map data...'') None wd"
    have s1: "adds is_progress wd ?ws"
      by (rule adds_report) (simp add: is_progress_def)
    obtain rs w2 where sv: "saveMapFile env name b ?ws = (rs, w2)"
      by (cases "saveMapFile env name b ?ws")
    from saveMapFile_reported [OF sv] have s2: "adds is_progress ?ws w2"
      by (rule adds_same)
    have to_w2: "adds is_progress w w2"
      using dd s1 s2 by (blast intro: adds_trans)
    show ?thesis
    proof (cases rs)
      case (Inl e')
      with assms Some y Inr sv to_w2 show ?thesis by (simp add: download_try_def)
    next
      case (Inr u')
      obtain rh w3 where hs: "handle_style env onP name st w2 = (rh, w3)"
        by (cases "handle_style env onP name st w2")
      from handle_style_adds [OF hs] to_w2 have "adds is_progress w w3"
        by (blast intro: adds_trans)
      with assms Some y \<open>r = Inr b\<close> sv Inr hs show ?thesis
        by (cases rh) (simp_all add: download_try_def)
    qed
  qed
qed


lemma report_failure_reported:
  "reported (report_failure True e w) = reported w @ [failure_status e]"
  by (simp add: report_failure_def failure_status_def)

text \<open>
  Claim C7, as stated, at a write to the database that runs out of quota when its
  transaction is committed: the storage library rejects the write with an \<open>AbortError\<close>
  that wraps the quota error, the \<open>catch\<close> block reads only \<open>e.name\<close>, and the quota
  exhaustion is reported with the code \<open>ERROR\<close>.
\<close>

theorem wrapped_quota_counterexample:
  "quota_exhaustion abort_error
   \<and> downloadMap env_abort (Some ''u'') ''m'' True Undefined world0 =
     Some (Inl abort_error,
           world0\<lparr>console := [ErrorLog [Text ''Failed to save m:'', Thrown abort_error]],
                  reported := [\<lparr>code = START, message = ''Starting download of m from u...'', progress = None\<rparr>,
                               \<lparr>code = PROGRESS, message = ''Server supports full download. Fetching...'', progress = None\<rparr>,
                               \<lparr>code = PROGRESS, message = ''Saving m map data...'', progress = None\<rparr>,
                               \<lparr>code = ERROR, message = ''Error: Transaction aborted'', progress = None\<rparr>],
                  requests := [\<lparr>req_url = ''u'', req_range = None\<rparr>]\<rparr>)"
  by (simp add: downloadMap_def download_try_def download_data_def do_fetch_def report_def
      report_failure_def saveMapFile_def console_error_def env_abort_def env_full_def env0_def
      response200_def ok_def world0_def abort_error_def quota_exhaustion_def)

text \<open>
  Claim C7, what the \<open>catch\<close> block does. Whenever \<open>downloadMap\<close> (called with an
  \<open>onProgress\<close>) rejects with an error, the last status reported is the one of the \<open>catch\<close>
  block: the code \<open>ERROR_QUOTA\<close> when the name of the error itself (\<open>e.name\<close>) is
  \<open>QuotaExceededError\<close>, and the code \<open>ERROR\<close> with the message of the error otherwise;
  every status reported before it in the run has the code \<open>START\<close> or \<open>PROGRESS\<close>.
\<close>

theorem failure_status_mapping:
  assumes "downloadMap env url name True styleSource w = Some (Inl e, w')"
  shows "\<exists>rs. reported w' = reported w @ rs @
            [if ename e = ''QuotaExceededError''
             then \<lparr>code = ERROR_QUOTA, message = ''Storage quota exceeded! Please delete old maps.'',
                   progress = None\<rparr>
             else \<lparr>code = ERROR, message = ''Error: '' @ emessage e, progress = None\<rparr>]
          \<and> list_all (\<lambda>r. code r = START \<or> code r = PROGRESS) rs"
proof -
  from assms obtain u where u: "url = Some u" "u \<noteq> []"
    by (cases url) (auto simp: downloadMap_def split: if_splits)
  let ?w0 = "report True START (''Starting download of '' @ name @ '' from '' @ u @ ''...'') None w"
  from assms u obtain w1 where t: "download_try env True u name styleSource ?w0 = Some (Inl e, w1)"
    and w': "w' = report_failure True e w1"
    by (auto simp: downloadMap_def split: option.splits sum.splits prod.splits)
  from download_try_adds_failure [OF t] obtain rs where
    rs: "reported w1 = reported ?w0 @ rs" "list_all is_progress rs"
    by (auto simp: adds_def)
  let ?start = "\<lparr>code = START, message = ''Starting download of '' @ name @ '' from '' @ u @ ''...'',
                 progress = None\<rparr>"
  have "reported w' = reported w @ (?start # rs) @ [failure_status e]"
    using w' rs by (simp add: report_failure_reported)
  moreover have "list_all (\<lambda>r. code r = START \<or> code r = PROGRESS) (?start # rs)"
    using rs by (simp add: list_all_iff is_progress_def)
  ultimately show ?thesis
    unfolding failure_status_def by blast
qed


text \<open>The causes of a failure of the first two steps, at the calls that fail: the first
  request, its status, and the write to the database.\<close>

lemma transport_error_fails:
  assumes "fetch env (length (requests w)) \<lparr>req_url = u, req_range = None\<rparr> = Inl e"
  shows "try_fails env onP u name st w e (w\<lparr>requests := requests w @ [\<lparr>req_url = u, req_range = None\<rparr>]\<rparr>)"
  by (rule try_fails.data) (simp add: download_data_def do_fetch_def assms)

lemma bad_status_fails:
  assumes "fetch env (length (requests w)) \<lparr>req_url = u, req_range = None\<rparr> = Inr resp" and "\<not> ok resp"
  shows "try_fails env onP u name st w (Error (''Download failed with status '' @ show_nat (status resp)))
           (w\<lparr>requests := requests w @ [\<lparr>req_url = u, req_range = None\<rparr>]\<rparr>)"
  by (rule try_fails.data) (simp add: download_data_def do_fetch_def assms)




lemma downloadMap_quota_run:
  "downloadMap env_quota (Some ''u'') ''m'' True Undefined world0 =
     Some (Inl quota_error,
           world0\<lparr>console := [ErrorLog [Text ''Failed to save m:'', Thrown quota_error]],
                  reported := [\<lparr>code = START, message = ''Starting download of m from u...'', progress = None\<rparr>,
                               \<lparr>code = PROGRESS, message = ''Server supports full download. Fetching...'', progress = None\<rparr>,
                               \<lparr>code = PROGRESS, message = ''Saving m map data...'', progress = None\<rparr>,
                               \<lparr>code = ERROR_QUOTA, message = ''Storage quota exceeded! Please delete old maps.'', progress = None\<rparr>],
                  requests := [\<lparr>req_url = ''u'', req_range = None\<rparr>]\<rparr>)"
  by (simp add: downloadMap_def download_try_def download_data_def do_fetch_def report_def
      report_failure_def saveMapFile_def console_error_def env_quota_def env_full_def env0_def
      response200_def ok_def world0_def quota_error_def)

lemma downloadMap_offline_run:
  "downloadMap env0 (Some ''u'') ''m'' True Undefined world0 =
     Some (Inl (TypeError ''Failed to fetch''),
           world0\<lparr>reported := [\<lparr>code = START, message = ''Starting download of m from u...'', progress = None\<rparr>,
                               \<lparr>code = ERROR, message = ''Error: Failed to fetch'', progress = None\<rparr>],
                  requests := [\<lparr>req_url = ''u'', req_range = None\<rparr>]\<rparr>)"
  by (simp add: downloadMap_def download_try_def download_data_def do_fetch_def report_def
      report_failure_def env0_def world0_def TypeError_def)

theorem failure_status_mapping_witness:
  "\<exists>w rs. downloadMap env_quota (Some ''u'') ''m'' True Undefined world0 = Some (Inl quota_error, w)
     \<and> reported w = rs @ [\<lparr>code = ERROR_QUOTA, message = ''Storage quota exceeded! Please delete old maps.'',
                            progress = None\<rparr>]
     \<and> list_all (\<lambda>r. code r = START \<or> code r = PROGRESS) rs"
  using failure_status_mapping [OF downloadMap_quota_run] downloadMap_quota_run
  by (simp add: world0_def quota_error_def)



section \<open>Properties of downloadMap: the chunk loop\<close>

lemma chunk_step_served:
  assumes "fetch env (length (requests w)) (range_request url (receivedLength s)) = Inr resp"
    and "ok resp" and "body_blob resp = Inr c"
  shows "chunk_step env onP url T s w =
     (Inr \<lparr>chunks = chunks s @ [c], receivedLength = receivedLength s + blob_size c\<rparr>,
      report onP PROGRESS ''Downloading chunks...''
        (Some (percent env (receivedLength s + blob_size c) T))
        (w\<lparr>requests := requests w @ [range_request url (receivedLength s)]\<rparr>))"
  using assms by (simp add: chunk_step_def do_fetch_def range_request_def Let_def)

lemma chunk_loop_serves:
  "serves env url T (length (requests w)) (receivedLength s) cs \<Longrightarrow>
   \<exists>w'. chunk_loop env onP url T s w =
           Some (Inr \<lparr>chunks = chunks s @ cs,
                      receivedLength = receivedLength s + sum_list (map blob_size cs)\<rparr>, w')
        \<and> files w' = files w \<and> styles w' = styles w"
proof (induction cs arbitrary: s w)
  case Nil
  then show ?case
    by (subst chunk_loop.simps) simp
next
  case (Cons c cs)
  from Cons.prems obtain resp where lt: "js_lt (of_size (receivedLength s)) T"
    and f: "fetch env (length (requests w)) (range_request url (receivedLength s)) = Inr resp"
    and r: "ok resp" "body_blob resp = Inr c"
    and rest: "serves env url T (Suc (length (requests w))) (receivedLength s + blob_size c) cs"
    by auto
  let ?s1 = "\<lparr>chunks = chunks s @ [c], receivedLength = receivedLength s + blob_size c\<rparr>"
  let ?w1 = "report onP PROGRESS ''Downloading chunks...''
        (Some (percent env (receivedLength s + blob_size c) T))
        (w\<lparr>requests := requests w @ [range_request url (receivedLength s)]\<rparr>)"
  have step: "chunk_step env onP url T s w = (Inr ?s1, ?w1)"
    by (rule chunk_step_served [OF f r])
  have "serves env url T (length (requests ?w1)) (receivedLength ?s1) cs"
    using rest by simp
  from Cons.IH [OF this] obtain w' where
    run: "chunk_loop env onP url T ?s1 ?w1 =
            Some (Inr \<lparr>chunks = chunks ?s1 @ cs,
                       receivedLength = receivedLength ?s1 + sum_list (map blob_size cs)\<rparr>, w')"
    and keep: "files w' = files ?w1" "styles w' = styles ?w1"
    by blast
  have "chunk_loop env onP url T s w = chunk_loop env onP url T ?s1 ?w1"
    using lt step by (subst chunk_loop.simps) simp
  with run keep show ?case
    by (simp add: add.assoc)
qed

lemma download_data_full:
  assumes "fetch env (length (requests w)) \<lparr>req_url = url, req_range = None\<rparr> = Inr resp"
    and "status resp = 200" and "body_blob resp = Inr b"
  shows "\<exists>w'. download_data env onP url w = Some (Inr b, w') \<and> files w' = files w"
  using assms by (simp add: download_data_def do_fetch_def ok_def)

lemma download_data_chunked:
  assumes f: "fetch env (length (requests w)) \<lparr>req_url = url, req_range = None\<rparr> = Inr resp"
    and st: "status resp = 206" and cr: "content_range resp = Some cr" "cr \<noteq> []"
    and nan: "\<not> isNaN (content_range_total cr)"
    and b: "body_blob resp = Inr c0"
    and sv: "serves env url (content_range_total cr) (Suc (length (requests w))) (blob_size c0) cs"
  shows "\<exists>w'. download_data env onP url w = Some (Inr (new_Blob (c0 # cs)), w') \<and> files w' = files w"
proof -
  let ?T = "content_range_total cr"
  let ?w1 = "w\<lparr>requests := requests w @ [\<lparr>req_url = url, req_range = None\<rparr>]\<rparr>"
  let ?w2 = "report onP PROGRESS
               (''Detected Partial Content. Total: '' @
                toFixed (numToString env) (js_div (js_div ?T (Fin 1024)) (Fin 1024)) 2 @ '' MB'') None ?w1"
  let ?s0 = "\<lparr>chunks = [c0], receivedLength = blob_size c0\<rparr>"
  let ?w3 = "report onP PROGRESS ''Downloading chunks...'' (Some (percent env (blob_size c0) ?T)) ?w2"
  have "serves env url ?T (length (requests ?w3)) (receivedLength ?s0) cs"
    using sv by simp
  from chunk_loop_serves [OF this, of onP] obtain w4 where
    run: "chunk_loop env onP url ?T ?s0 ?w3 =
            Some (Inr \<lparr>chunks = c0 # cs, receivedLength = blob_size c0 + sum_list (map blob_size cs)\<rparr>, w4)"
    and keep: "files w4 = files ?w3"
    by auto
  have "download_chunked env onP url cr resp ?w1 =
      Some (Inr (new_Blob (c0 # cs)), report onP PROGRESS ''Assembling file...'' None w4)"
    using nan b run by (simp add: download_chunked_def chunked_init_def Let_def)
  then have "download_data env onP url w =
      Some (Inr (new_Blob (c0 # cs)), report onP PROGRESS ''Assembling file...'' None w4)"
    using f st cr by (simp add: download_data_def do_fetch_def ok_def)
  with keep show ?thesis
    by simp
qed

lemma handle_style_files:
  "handle_style env onP name st w = (res, w1) \<Longrightarrow> files w1 = files w"
  by (auto simp: handle_style_def resolve_style_def saveMapStyle_def do_fetch_def
      console_log_def console_error_def
      split: sum.splits if_splits jsval.splits option.splits prod.splits)

lemma report_failure_files [simp]: "files (report_failure onP e w) = files w"
  by (simp add: report_failure_def)

text \<open>Once the data is there, the rest of the run stores it under the name, whatever
  becomes of the style.\<close>

lemma downloadMap_stores:
  assumes u: "u \<noteq> []" and put: "db_failure env (FilesPut name) = None"
    and dd: "download_data env onP u
               (report onP START (''Starting download of '' @ name @ '' from '' @ u @ ''...'') None w)
             = Some (Inr b, w1)"
  shows "\<exists>res w'. downloadMap env (Some u) name onP styleSource w = Some (res, w')
           \<and> files w' name = Some \<lparr>file_name = name, file_blob = b, file_date = now env\<rparr>"
proof -
  let ?ws = "report onP PROGRESS (''Saving '' @ name @ '' map data...'') None w1"
  let ?w2 = "console_log [Text (''Saved '' @ name @ '' to IndexedDB'')]
               (?ws\<lparr>files := (files ?ws)(name \<mapsto> \<lparr>file_name = name, file_blob = b, file_date = now env\<rparr>)\<rparr>)"
  have sv: "saveMapFile env name b ?ws = (Inr (), ?w2)"
    using put by (simp add: saveMapFile_def)
  have f2: "files ?w2 name = Some \<lparr>file_name = name, file_blob = b, file_date = now env\<rparr>"
    by (simp add: console_log_def)
  obtain rh w3 where hs: "handle_style env onP name styleSource ?w2 = (rh, w3)"
    by (cases "handle_style env onP name styleSource ?w2")
  from handle_style_files [OF hs] f2
  have f3: "files w3 name = Some \<lparr>file_name = name, file_blob = b, file_date = now env\<rparr>"
    by simp
  show ?thesis
  proof (cases rh)
    case (Inl e)
    with u dd sv hs have "downloadMap env (Some u) name onP styleSource w
        = Some (Inl e, report_failure onP e w3)"
      by (simp add: downloadMap_def download_try_def)
    with f3 show ?thesis by simp
  next
    case (Inr x)
    with u dd sv hs have "downloadMap env (Some u) name onP styleSource w
        = Some (Inr (), report onP COMPLETE (''Saved '' @ name @ ''! Ready to load.'') None w3)"
      by (simp add: downloadMap_def download_try_def)
    with f3 show ?thesis by simp
  qed
qed

lemma new_Blob_bytes: "bytes (new_Blob cs) = concat (map bytes cs)"
  by (simp add: new_Blob_def)

text \<open>
  Claim C1. A download is described by the answers of the server: the first answer
  \<open>resp\<close> with the body \<open>c0\<close>, and the chunks \<open>cs\<close> served to the range requests that
  follow. When the first answer has the status 200 (and nothing follows), or the status
  206 with a \<open>Content-Range\<close> that announces a total, the chunks \<open>cs\<close> being those served
  until the counter reaches that total, then, whatever the sizes of the chunks, the call
  returns, the archive stored under the name is the body itself in the first case and the
  chunks put together in the order received in the second, and reading the archive back
  yields the bytes of \<open>c0\<close> and \<open>cs\<close> concatenated in that order.
\<close>

theorem download_round_trip:
  assumes "u \<noteq> []"
    and "db_failure env (FilesPut name) = None" and "db_failure env (FilesGet name) = None"
    and "fetch env (length (requests w)) \<lparr>req_url = u, req_range = None\<rparr> = Inr resp"
    and "body_blob resp = Inr c0"
    and "status resp = 200 \<and> cs = []
         \<or> status resp = 206
           \<and> (\<exists>cr. content_range resp = Some cr \<and> cr \<noteq> [] \<and> \<not> isNaN (content_range_total cr)
                 \<and> serves env u (content_range_total cr) (Suc (length (requests w))) (blob_size c0) cs)"
  shows "\<exists>res w' b. downloadMap env (Some u) name onP styleSource w = Some (res, w')
           \<and> files w' name = Some \<lparr>file_name = name, file_blob = b, file_date = now env\<rparr>
           \<and> b = (if status resp = 200 then c0 else new_Blob (c0 # cs))
           \<and> fst (getMapFile env name w') = Inr (Some b)
           \<and> bytes b = concat (map bytes (c0 # cs))"
proof -
  let ?w0 = "report onP START (''Starting download of '' @ name @ '' from '' @ u @ ''...'') None w"
  let ?b = "if status resp = 200 then c0 else new_Blob (c0 # cs)"
  have f: "fetch env (length (requests ?w0)) \<lparr>req_url = u, req_range = None\<rparr> = Inr resp"
    using assms(4) by simp
  have "\<exists>w1. download_data env onP u ?w0 = Some (Inr ?b, w1)"
    using assms(6)
  proof (elim disjE conjE exE)
    assume "status resp = 200" "cs = []"
    with download_data_full [OF f _ assms(5), of onP] show ?thesis
      by auto
  next
    fix cr
    assume st: "status resp = 206" and cr: "content_range resp = Some cr" "cr \<noteq> []"
      and nan: "\<not> isNaN (content_range_total cr)"
      and sv: "serves env u (content_range_total cr) (Suc (length (requests w))) (blob_size c0) cs"
    from sv have "serves env u (content_range_total cr) (Suc (length (requests ?w0))) (blob_size c0) cs"
      by simp
    from download_data_chunked [OF f st cr nan assms(5) this, of onP] st show ?thesis
      by auto
  qed
  then obtain w1 where dd: "download_data env onP u ?w0 = Some (Inr ?b, w1)"
    by blast
  from downloadMap_stores [OF assms(1) assms(2) dd, of styleSource] obtain res w' where
    run: "downloadMap env (Some u) name onP styleSource w = Some (res, w')"
    and st: "files w' name = Some \<lparr>file_name = name, file_blob = ?b, file_date = now env\<rparr>"
    by blast
  have rd: "fst (getMapFile env name w') = Inr (Some ?b)"
    using st assms(3) by (simp add: getMapFile_def)
  have "bytes ?b = concat (map bytes (c0 # cs))"
    using assms(6) by (auto simp: new_Blob_bytes)
  with run st rd show ?thesis
    by blast
qed
lemma js_lt_of_size [simp]: "js_lt (of_size a) (of_size b) = (a < b)"
  by (simp add: js_lt_def of_size_def)

lemma isNaN_of_size [simp]: "\<not> isNaN (of_size n)"
  by (simp add: isNaN_def of_size_def)

text \<open>A partition of the source into non-empty chunks is served to its end: the counter
  stays below the total before each chunk and equals it after the last.\<close>

lemma answers_serves:
  "answers env url k r cs \<Longrightarrow> \<forall>c\<in>set cs. bytes c \<noteq> [] \<Longrightarrow>
   serves env url (of_size (r + sum_list (map blob_size cs))) k r cs"
proof (induction cs arbitrary: k r)
  case Nil
  then show ?case by simp
next
  case (Cons c cs)
  from Cons.prems have a: "answers env url (Suc k) (r + blob_size c) cs"
    and ne: "\<forall>c\<in>set cs. bytes c \<noteq> []" and c: "0 < blob_size c"
    by (simp_all add: blob_size_def)
  from Cons.IH [OF a ne]
  have "serves env url (of_size (r + (blob_size c + sum_list (map blob_size cs)))) (Suc k) (r + blob_size c) cs"
    by (simp add: add.assoc)
  with Cons.prems c show ?case by simp
qed

lemma range_server_range:
  "range_server src m k (range_request url r) =
     Inr \<lparr>status = 206,
          content_range = Some (''bytes '' @ show_nat r @ ''-'' @
                                show_nat (r + length (take m (drop r src)) - 1) @ ''/'' @ show_nat (length src)),
          body_blob = Inr \<lparr>bytes = take m (drop r src), unreadable = None\<rparr>,
          body_json = Inl \<lparr>ename = ''SyntaxError'', emessage = ''Unexpected token'', inner = None\<rparr>\<rparr>"
proof -
  have "\<not> is_digit 10 CHR ''-''"
    by (simp add: is_digit_def digit_val_def)
  then have "takeWhile (is_digit 10) (show_nat r @ ''-'') = show_nat r"
    using show_nat_all_digits [of r] by (simp add: list_all_iff)
  then show ?thesis
    by (simp add: range_server_def range_request_def digits_value_show_nat Let_def)
qed

theorem download_round_trip_witness:
  "(\<exists>res w' b. downloadMap env_range (Some ''u'') ''m'' True Undefined world0 = Some (res, w')
     \<and> files w' ''m'' = Some \<lparr>file_name = ''m'', file_blob = b, file_date = 0\<rparr>
     \<and> fst (getMapFile env_range ''m'' w') = Inr (Some b)
     \<and> bytes b = [1, 2, 3, 4, 5])
   \<and> (\<exists>res w'. downloadMap env_full (Some ''u'') ''m'' True Undefined world0 = Some (res, w')
     \<and> files w' ''m'' = Some \<lparr>file_name = ''m'', file_blob = blob3, file_date = 0\<rparr>)"
proof -
  let ?c0 = "\<lparr>bytes = [1, 2 :: byte], unreadable = None\<rparr>"
  let ?cs = "[\<lparr>bytes = [3, 4 :: byte], unreadable = None\<rparr>, \<lparr>bytes = [5], unreadable = None\<rparr>]"
  let ?resp = "\<lparr>status = 206, content_range = Some ''bytes 0-1/5'',
                body_blob = Inr ?c0,
                body_json = Inl \<lparr>ename = ''SyntaxError'', emessage = ''Unexpected token'', inner = None\<rparr>\<rparr>"
  have s5: "show_nat 5 = ''5''"
    by code_simp
  have u: "''u'' \<noteq> []" by simp
  have put: "db_failure env_range (FilesPut ''m'') = None"
    and get: "db_failure env_range (FilesGet ''m'') = None"
    by (simp_all add: env_range_def env0_def)
  have f: "fetch env_range (length (requests world0)) \<lparr>req_url = ''u'', req_range = None\<rparr> = Inr ?resp"
    by code_simp
  have b: "body_blob ?resp = Inr ?c0" by simp
  have total: "content_range_total ''bytes 0-1/5'' = of_size 5"
    using content_range_total_usual [of "''bytes 0-1''" 5] by (simp add: s5)
  have "answers env_range ''u'' (Suc (length (requests world0))) (blob_size ?c0) ?cs"
    by (simp add: env_range_def env0_def range_server_range ok_def blob_size_def world0_def)
  from answers_serves [OF this]
  have "serves env_range ''u'' (of_size 5) (Suc (length (requests world0))) (blob_size ?c0) ?cs"
    by (simp add: blob_size_def)
  with total have mode: "status ?resp = 200 \<and> ?cs = []
      \<or> status ?resp = 206
        \<and> (\<exists>cr. content_range ?resp = Some cr \<and> cr \<noteq> [] \<and> \<not> isNaN (content_range_total cr)
              \<and> serves env_range ''u'' (content_range_total cr) (Suc (length (requests world0)))
                   (blob_size ?c0) ?cs)"
    by simp
  from download_round_trip [OF u put get f b mode, of True Undefined]
  obtain res w' bb where
    r: "downloadMap env_range (Some ''u'') ''m'' True Undefined world0 = Some (res, w')"
      "files w' ''m'' = Some \<lparr>file_name = ''m'', file_blob = bb, file_date = now env_range\<rparr>"
      "fst (getMapFile env_range ''m'' w') = Inr (Some bb)"
      "bytes bb = concat (map bytes (?c0 # ?cs))"
    by blast
  have "now env_range = 0"
    by (simp add: env_range_def env0_def)
  with r have chunked: "\<exists>res w' b. downloadMap env_range (Some ''u'') ''m'' True Undefined world0 = Some (res, w')
     \<and> files w' ''m'' = Some \<lparr>file_name = ''m'', file_blob = b, file_date = 0\<rparr>
     \<and> fst (getMapFile env_range ''m'' w') = Inr (Some b)
     \<and> bytes b = [1, 2, 3, 4, 5]"
    by (intro exI [of _ res] exI [of _ w'] exI [of _ bb]) simp
  have put2: "db_failure env_full (FilesPut ''m'') = None"
    and get2: "db_failure env_full (FilesGet ''m'') = None"
    by (simp_all add: env_full_def env0_def)
  have f2: "fetch env_full (length (requests world0)) \<lparr>req_url = ''u'', req_range = None\<rparr> = Inr response200"
    by (simp add: env_full_def env0_def)
  have b2: "body_blob response200 = Inr blob3"
    by (simp add: response200_def)
  have mode2: "status response200 = 200 \<and> ([] :: blob list) = []
      \<or> status response200 = 206
        \<and> (\<exists>cr. content_range response200 = Some cr \<and> cr \<noteq> [] \<and> \<not> isNaN (content_range_total cr)
              \<and> serves env_full ''u'' (content_range_total cr) (Suc (length (requests world0)))
                   (blob_size blob3) [])"
    by (simp add: response200_def)
  from download_round_trip [OF u put2 get2 f2 b2 mode2, of True Undefined]
  have full: "\<exists>res w'. downloadMap env_full (Some ''u'') ''m'' True Undefined world0 = Some (res, w')
     \<and> files w' ''m'' = Some \<lparr>file_name = ''m'', file_blob = blob3, file_date = 0\<rparr>"
    by (auto simp: response200_def env_full_def env0_def)
  from chunked full show ?thesis ..
qed

section \<open>Properties of downloadMap: the counter of received bytes\<close>

lemma chunk_step_Inr:
  assumes "chunk_step env onP url T s w = (Inr s1, w1)"
  shows "\<exists>resp c. fetch env (length (requests w)) (range_request url (receivedLength s)) = Inr resp
           \<and> ok resp \<and> body_blob resp = Inr c
           \<and> s1 = \<lparr>chunks = chunks s @ [c], receivedLength = receivedLength s + blob_size c\<rparr>
           \<and> w1 = report onP PROGRESS ''Downloading chunks...''
                    (Some (percent env (receivedLength s + blob_size c) T))
                    (w\<lparr>requests := requests w @ [range_request url (receivedLength s)]\<rparr>)"
  using assms
  by (auto simp: chunk_step_def do_fetch_def range_request_def Let_def split: sum.splits if_splits)

text \<open>
  Claim C3, as stated, at a server that announces four bytes and sends three at a time:
  after the first chunk the counter is 3, below the total, and the second chunk takes it
  to 6, above the total.
\<close>

theorem counter_exceeds_total_counterexample:
  "fst (chunked_init env_over True (of_size 4) blob3 world0) = \<lparr>chunks = [blob3], receivedLength = 3\<rparr>
   \<and> js_lt (of_size 3) (of_size 4)
   \<and> fst (chunk_step env_over True ''u'' (of_size 4) \<lparr>chunks = [blob3], receivedLength = 3\<rparr>
            (snd (chunked_init env_over True (of_size 4) blob3 world0)))
       = Inr \<lparr>chunks = [blob3, blob3], receivedLength = 6\<rparr>
   \<and> js_lt (of_size 4) (of_size 6)"
  by (simp add: chunked_init_def chunk_step_def do_fetch_def env_over_def env0_def ok_def
      blob_size_def blob3_def Let_def)

text \<open>
  Claim C3, amended. In every state of the chunk loop the counter is the sum of the sizes
  of the chunks received so far. It was below the total when the last range request was
  sent, so that it exceeds the total by less than the size of the last chunk (the first
  chunk, which no test precedes, may be of any size). And it never exceeds the total
  when the first chunk is not longer than the total and no answer to a range request
  carries bytes past the total.
\<close>

theorem received_length_invariant:
  assumes "loop_reach env onP url T (chunked_init env onP T firstChunk w0) (s, w)"
  shows "receivedLength s = sum_list (map blob_size (chunks s))
       \<and> chunks s \<noteq> [] \<and> hd (chunks s) = firstChunk
       \<and> (length (chunks s) = 1
          \<or> js_lt (of_size (receivedLength s - blob_size (last (chunks s)))) T)
       \<and> (\<forall>t. T = of_size t \<and> blob_size firstChunk \<le> t \<and> within_total env url t \<longrightarrow>
              receivedLength s \<le> t)"
  using assms
proof (induction "(s, w)" arbitrary: s w rule: loop_reach.induct)
  case start
  then show ?case
    by (auto simp: chunked_init_def)
next
  case (turn s0 w0' s w)
  from turn.hyps(2) have ih: "receivedLength s0 = sum_list (map blob_size (chunks s0))"
    "chunks s0 \<noteq> []" "hd (chunks s0) = firstChunk"
    "\<forall>t. T = of_size t \<and> blob_size firstChunk \<le> t \<and> within_total env url t \<longrightarrow>
              receivedLength s0 \<le> t"
    by auto
  from chunk_step_Inr [OF turn.hyps(4)] obtain resp c where
    f: "fetch env (length (requests w0')) (range_request url (receivedLength s0)) = Inr resp"
    and b: "body_blob resp = Inr c"
    and s: "s = \<lparr>chunks = chunks s0 @ [c], receivedLength = receivedLength s0 + blob_size c\<rparr>"
    by blast
  have "\<forall>t. T = of_size t \<and> blob_size firstChunk \<le> t \<and> within_total env url t \<longrightarrow>
              receivedLength s \<le> t"
  proof (intro allI impI)
    fix t
    assume t: "T = of_size t \<and> blob_size firstChunk \<le> t \<and> within_total env url t"
    with turn.hyps(3) have "receivedLength s0 < t" by simp
    with t f b have "receivedLength s0 + blob_size c \<le> t"
      unfolding within_total_def by blast
    with s show "receivedLength s \<le> t" by simp
  qed
  with ih turn.hyps(3) s show ?case
    by simp
qed

text \<open>The state the loop returns with is one of these states, and the one in which the
  test of the loop fails.\<close>

lemma chunk_loop_reach:
  assumes "chunk_loop env onP url T s w = Some (Inr s', w')"
  shows "loop_reach env onP url T (s, w) (s', w') \<and> \<not> js_lt (of_size (receivedLength s')) T"
proof -
  have "case res of
          Inl e \<Rightarrow> True
        | Inr s1 \<Rightarrow> loop_reach env onP url T (s, w) (s1, w1) \<and> \<not> js_lt (of_size (receivedLength s1)) T"
    if "chunk_loop env onP url T s w = Some (res, w1)" for res w1
  proof (rule chunk_loop_rule [OF that, where I = "\<lambda>s1 w1. loop_reach env onP url T (s, w) (s1, w1)"],
      goal_cases)
    case 1
    show ?case by (rule loop_reach.start)
  next
    case (2 s0 w0 s1 w1)
    then show ?case by (rule loop_reach.turn)
  next
    case (3 s0 w0 e w1)
    show ?case by simp
  next
    case (4 s0 w0)
    then show ?case by simp
  qed
  from this [OF assms] show ?thesis by simp
qed

text \<open>An example of a state of the loop: the server of five bytes that sends two at a
  time has sent the second chunk.\<close>

lemma fetch_env_range: "fetch env_range k req = range_server [1, 2, 3, 4, 5] 2 k req"
  by (simp add: env_range_def env0_def)

lemma range_reach_example:
  "\<exists>w. loop_reach env_range True ''u'' (of_size 5)
         (chunked_init env_range True (of_size 5) \<lparr>bytes = [1, 2], unreadable = None\<rparr> world0)
         (\<lparr>chunks = [\<lparr>bytes = [1, 2], unreadable = None\<rparr>, \<lparr>bytes = [3, 4], unreadable = None\<rparr>],
           receivedLength = 4\<rparr>, w)"
proof -
  let ?c0 = "\<lparr>bytes = [1, 2 :: byte], unreadable = None\<rparr>"
  let ?c1 = "\<lparr>bytes = [3, 4 :: byte], unreadable = None\<rparr>"
  let ?init = "chunked_init env_range True (of_size 5) ?c0 world0"
  let ?s1 = "\<lparr>chunks = chunks (fst ?init) @ [?c1],
              receivedLength = receivedLength (fst ?init) + blob_size ?c1\<rparr>"
  let ?w1 = "report True PROGRESS ''Downloading chunks...''
        (Some (percent env_range (receivedLength (fst ?init) + blob_size ?c1) (of_size 5)))
        ((snd ?init)\<lparr>requests := requests (snd ?init) @ [range_request ''u'' (receivedLength (fst ?init))]\<rparr>)"
  have r0: "receivedLength (fst ?init) = 2"
    by (simp add: chunked_init_def blob_size_def)
  have "\<exists>resp. fetch env_range (length (requests (snd ?init))) (range_request ''u'' (receivedLength (fst ?init)))
      = Inr resp \<and> ok resp \<and> body_blob resp = Inr ?c1"
    unfolding fetch_env_range r0 range_server_range by (simp add: ok_def)
  then obtain resp where
    "fetch env_range (length (requests (snd ?init))) (range_request ''u'' (receivedLength (fst ?init))) = Inr resp"
    "ok resp" "body_blob resp = Inr ?c1"
    by blast
  from chunk_step_served [OF this, of True "of_size 5"]
  have step: "chunk_step env_range True ''u'' (of_size 5) (fst ?init) (snd ?init) = (Inr ?s1, ?w1)" .
  have lt: "js_lt (of_size (receivedLength (fst ?init))) (of_size 5)"
    by (simp add: r0)
  have "loop_reach env_range True ''u'' (of_size 5) ?init (fst ?init, snd ?init)"
    using loop_reach.start [of env_range True "''u''" "of_size 5" ?init] by simp
  from loop_reach.turn [OF this lt step]
  have "loop_reach env_range True ''u'' (of_size 5) ?init (?s1, ?w1)" .
  moreover have "?s1 = \<lparr>chunks = [?c0, ?c1], receivedLength = 4\<rparr>"
    by (simp add: chunked_init_def blob_size_def)
  ultimately show ?thesis
    by auto
qed

lemma within_total_env_range: "within_total env_range ''u'' 5"
  unfolding within_total_def fetch_env_range range_server_range by (auto simp: blob_size_def)

theorem received_length_invariant_witness:
  "\<exists>s w. loop_reach env_range True ''u'' (of_size 5)
            (chunked_init env_range True (of_size 5) \<lparr>bytes = [1, 2], unreadable = None\<rparr> world0) (s, w)
     \<and> chunks s = [\<lparr>bytes = [1, 2], unreadable = None\<rparr>, \<lparr>bytes = [3, 4], unreadable = None\<rparr>]
     \<and> receivedLength s = 4 \<and> receivedLength s \<le> 5"
proof -
  let ?c0 = "\<lparr>bytes = [1, 2 :: byte], unreadable = None\<rparr>"
  let ?c1 = "\<lparr>bytes = [3, 4 :: byte], unreadable = None\<rparr>"
  let ?s1 = "\<lparr>chunks = [?c0, ?c1], receivedLength = 4\<rparr>"
  from range_reach_example obtain w where
    reach: "loop_reach env_range True ''u'' (of_size 5)
              (chunked_init env_range True (of_size 5) ?c0 world0) (?s1, w)"
    by blast
  have "of_size 5 = of_size 5 \<and> blob_size ?c0 \<le> 5 \<and> within_total env_range ''u'' 5"
    using within_total_env_range by (simp add: blob_size_def)
  with received_length_invariant [OF reach]
  have "receivedLength ?s1 \<le> 5"
    by blast
  with reach show ?thesis
    by (intro exI [of _ ?s1] exI [of _ w]) simp
qed

section \<open>Properties of downloadMap: the percentages reported\<close>

lemma fl_pos_below_pow2:
  assumes "0 < x" and "x < power_int 2 k" and "- 1022 < k"
  shows "fl_pos x \<le> power_int 2 k"
proof -
  from ilog2_bounds [OF assms(1)] assms(2) have "power_int (2::rat) (ilog2 x) < power_int 2 k"
    by linarith
  then have "ilog2 x < k" by (rule pow2_less_exp)
  with assms(3) have "max (ilog2 x) (- 1022) + 1 \<le> k" by linarith
  then have "power_int (2::rat) (max (ilog2 x) (- 1022) + 1) \<le> power_int 2 k"
    by (rule power_int_increasing) simp
  with fl_pos_upper [OF assms(1)] show ?thesis by linarith
qed

lemma fixed_digits_1:
  "fixed_digits n 1 = show_nat (n div 10) @ ''.'' @ [digit_char (n mod 10)]"
proof (cases "n < 10")
  case True
  then show ?thesis
    by (simp add: fixed_digits_def show_nat_small Let_def digit_chars)
next
  case False
  then have m: "show_nat n = show_nat (n div 10) @ [digit_char (n mod 10)]"
    by (simp add: show_nat_step)
  have "1 \<le> length (show_nat (n div 10))"
    using show_nat_not_Nil [of "n div 10"] by (cases "show_nat (n div 10)") simp_all
  then show ?thesis
    by (simp add: fixed_digits_def Let_def m)
qed

lemma takeWhile_until: "c \<notin> set xs \<Longrightarrow> takeWhile (\<lambda>x. x \<noteq> c) (xs @ c # ys) = xs"
  by (induction xs) auto

lemma tenths_of_fixed_digits: "tenths_of (fixed_digits n 1) = Some n"
proof -
  have dot: "CHR ''.'' \<notin> set (show_nat (n div 10))"
    by (rule show_nat_no_char) simp
  then have tw: "takeWhile (\<lambda>c. c \<noteq> CHR ''.'') (show_nat (n div 10) @ ''.'' @ [digit_char (n mod 10)])
      = show_nat (n div 10)"
    by (simp add: takeWhile_until)
  have d: "n mod 10 < 10" by simp
  show ?thesis
    unfolding tenths_of_def fixed_digits_1 tw Let_def
    by (simp add: show_nat_all_digits digits_value_show_nat is_digit_digit_char [OF d]
        digit_val_digit_char [OF d])
qed

lemma fixed_digits_1_inj: "fixed_digits n 1 = fixed_digits m 1 \<Longrightarrow> n = m"
  using tenths_of_fixed_digits [of n] tenths_of_fixed_digits [of m] by simp

lemma quotient_le:
  assumes "1 \<le> t"
  shows "(of_nat r :: rat) / of_nat t \<le> of_nat r"
proof -
  from assms have "(1::rat) \<le> of_nat t" by simp
  then have "(of_nat r :: rat) / of_nat t \<le> of_nat r / 1"
    by (intro divide_left_mono) simp_all
  then show ?thesis by simp
qed

lemma fl_pos_quotient_small:
  assumes "1 \<le> t" and "r < 2 ^ 53"
  shows "fl_pos (of_nat r / of_nat t) \<le> 2 ^ 53"
proof -
  have "fl_pos (of_nat r / of_nat t) \<le> fl_pos (of_nat r)"
    by (rule fl_pos_mono) (simp_all add: quotient_le [OF assms(1)])
  also have "\<dots> = of_nat r" by (rule fl_pos_of_nat [OF assms(2)])
  also from assms(2) have "(of_nat r :: rat) \<le> of_nat (2 ^ 53)"
    by (simp only: of_nat_le_iff)
  finally show ?thesis by simp
qed

lemma fl_pos_percent_small:
  assumes "0 \<le> v" and "v \<le> 2 ^ 53"
  shows "fl_pos (v * 100) \<le> 2 ^ 60"
proof (cases "v = 0")
  case True
  then show ?thesis by simp
next
  case False
  with assms have pos: "0 < v * 100" by simp
  from assms(2) have "v * 100 \<le> 2 ^ 53 * 100" by simp
  also have "(2::rat) ^ 53 * 100 < power_int 2 60" by simp
  finally have "fl_pos (v * 100) \<le> power_int 2 60"
    by (intro fl_pos_below_pow2 [OF pos]) simp_all
  then show ?thesis by simp
qed

text \<open>The percentage the loop reports, for a total and a counter that are exact
  doubles: the decimal digits of \<open>percent_tenths\<close>.\<close>

lemma percent_eq:
  assumes t: "1 \<le> t" and r: "r < 2 ^ 53"
  shows "percent env r (of_size t) = fixed_digits (percent_tenths r t) 1"
proof -
  let ?q = "of_nat r / of_nat t :: rat"
  let ?v = "fl_pos ?q"
  let ?p = "fl_pos (?v * 100)"
  have q0: "0 \<le> ?q" by simp
  have v0: "0 \<le> ?v" by (rule fl_pos_nonneg [OF q0])
  have v53: "?v \<le> 2 ^ 53" by (rule fl_pos_quotient_small [OF t r])
  have p0: "0 \<le> ?p" by (rule fl_pos_nonneg) (simp add: v0)
  have p60: "?p \<le> 2 ^ 60" by (rule fl_pos_percent_small [OF v0 v53])
  have div: "js_div (of_size r) (of_size t) = Fin ?v"
  proof (cases "r = 0")
    case True
    with t show ?thesis
      by (simp add: js_div_def of_size_def signed_zero_def)
  next
    case False
    with t have pos: "0 < ?q" by simp
    from v53 have "?v < 2 ^ 1024" by simp
    from fl_positive [OF pos this] False t show ?thesis
      by (simp add: js_div_def of_size_def)
  qed
  have mul: "js_mul (Fin ?v) (Fin 100) = Fin ?p"
  proof (cases "?v = 0")
    case True
    then show ?thesis
      by (simp add: js_mul_def signed_zero_def)
  next
    case False
    with v0 have pos: "0 < ?v * 100" by simp
    from p60 have "?p < 2 ^ 1024" by simp
    from fl_positive [OF pos this] False show ?thesis
      by (simp add: js_mul_def)
  qed
  from p60 have small: "\<not> 10 ^ 21 \<le> \<bar>?p\<bar>"
    using p0 by simp
  show ?thesis
    unfolding percent_def div mul
    using p0 small by (simp add: toFixed_def percent_tenths_def)
qed

lemma percent_tenths_mono:
  assumes "1 \<le> t" and "r \<le> r'"
  shows "percent_tenths r t \<le> percent_tenths r' t"
proof -
  let ?q = "of_nat r / of_nat t :: rat" and ?q' = "of_nat r' / of_nat t :: rat"
  from assms have "?q \<le> ?q'"
    by (simp add: divide_right_mono)
  then have "fl_pos ?q \<le> fl_pos ?q'"
    by (intro fl_pos_mono) simp_all
  then have "fl_pos ?q * 100 \<le> fl_pos ?q' * 100" by simp
  then have "fl_pos (fl_pos ?q * 100) \<le> fl_pos (fl_pos ?q' * 100)"
    by (intro fl_pos_mono) (simp_all add: fl_pos_nonneg)
  then have "\<lfloor>fl_pos (fl_pos ?q * 100) * 10 + 1 / 2\<rfloor> \<le> \<lfloor>fl_pos (fl_pos ?q' * 100) * 10 + 1 / 2\<rfloor>"
    by (intro floor_mono) simp
  then show ?thesis
    unfolding percent_tenths_def by (rule nat_mono)
qed

lemma percent_tenths_rat_mono:
  assumes "0 \<le> q" and "q \<le> q'"
  shows "nat \<lfloor>fl_pos (fl_pos q * 100) * 10 + 1 / 2\<rfloor> \<le> nat \<lfloor>fl_pos (fl_pos q' * 100) * 10 + 1 / 2\<rfloor>"
proof -
  from assms have "fl_pos q \<le> fl_pos q'"
    by (intro fl_pos_mono)
  then have "fl_pos q * 100 \<le> fl_pos q' * 100" by simp
  then have "fl_pos (fl_pos q * 100) \<le> fl_pos (fl_pos q' * 100)"
    using assms(1) by (intro fl_pos_mono) (simp_all add: fl_pos_nonneg)
  then have "\<lfloor>fl_pos (fl_pos q * 100) * 10 + 1 / 2\<rfloor> \<le> \<lfloor>fl_pos (fl_pos q' * 100) * 10 + 1 / 2\<rfloor>"
    by (intro floor_mono) simp
  then show ?thesis
    by (rule nat_mono)
qed

lemma percent_tenths_complete:
  assumes "1 \<le> t"
  shows "percent_tenths t t = 1000"
proof -
  from assms have "(of_nat t :: rat) / of_nat t = of_nat 1" by simp
  moreover have "fl_pos (of_nat 1) = (of_nat 1 :: rat)" by (rule fl_pos_of_nat) simp
  moreover have "fl_pos (of_nat 100) = (of_nat 100 :: rat)" by (rule fl_pos_of_nat) simp
  moreover have "nat \<lfloor>(2001::rat) / 2\<rfloor> = 1000" by code_simp
  ultimately show ?thesis
    by (simp add: percent_tenths_def)
qed

lemma tenths_below: "nat \<lfloor>fl_pos (fl_pos (4997 / 5000) * 100) * 10 + 1 / 2\<rfloor> = 999"
  by code_simp

lemma tenths_above: "nat \<lfloor>fl_pos (fl_pos (5003 / 5000) * 100) * 10 + 1 / 2\<rfloor> = 1001"
  by code_simp

lemma percent_tenths_1000:
  assumes t: "1 \<le> t" and h: "percent_tenths r t = 1000"
  shows "9994 * t < 10000 * r \<and> 10000 * r < 10006 * t"
proof -
  let ?q = "of_nat r / of_nat t :: rat"
  from t have tp: "(0::rat) < of_nat t" by simp
  have lo: "9994 * t < 10000 * r"
  proof (rule ccontr)
    assume "\<not> 9994 * t < 10000 * r"
    then have "10000 * r \<le> 9994 * t" by simp
    then have "(of_nat (10000 * r) :: rat) \<le> of_nat (9994 * t)"
      by (simp only: of_nat_le_iff)
    then have "?q \<le> 4997 / 5000"
      using tp by (simp add: field_simps)
    from percent_tenths_rat_mono [OF _ this] have "percent_tenths r t \<le> 999"
      by (simp add: percent_tenths_def tenths_below)
    with h show False by simp
  qed
  have hi: "10000 * r < 10006 * t"
  proof (rule ccontr)
    assume "\<not> 10000 * r < 10006 * t"
    then have "10006 * t \<le> 10000 * r" by simp
    then have "(of_nat (10006 * t) :: rat) \<le> of_nat (10000 * r)"
      by (simp only: of_nat_le_iff)
    then have "5003 / 5000 \<le> ?q"
      using tp by (simp add: field_simps)
    from percent_tenths_rat_mono [OF _ this] have "1001 \<le> percent_tenths r t"
      by (simp add: percent_tenths_def tenths_above)
    with h show False by simp
  qed
  from lo hi show ?thesis ..
qed

lemma fixed_digits_1000: "fixed_digits 1000 1 = ''100.0''"
  by code_simp
lemma sorted_snoc_last:
  assumes "sorted ns" and "ns \<noteq> []" and "last ns \<le> (x::nat)"
  shows "sorted (ns @ [x])"
proof -
  have "\<forall>y\<in>set ns. y \<le> x"
  proof
    fix y assume "y \<in> set ns"
    then obtain i where "i < length ns" "y = ns ! i" by (auto simp: in_set_conv_nth)
    with assms(1,2) have "y \<le> last ns"
      by (simp add: last_conv_nth sorted_nth_mono)
    with assms(3) show "y \<le> x" by simp
  qed
  with assms(1) show ?thesis by (simp add: sorted_append)
qed

lemma percent_tenths_example: "percent_tenths 2499 2500 = 1000"
proof -
  have "nat \<lfloor>fl_pos (fl_pos (2499 / 2500) * 100) * 10 + 1 / 2\<rfloor> = 1000"
    by code_simp
  then show ?thesis
    by (simp add: percent_tenths_def)
qed

text \<open>
  Claim C2, as stated, at a first chunk of 2499 bytes of an announced total of 2500: the
  percentage reported is 100.0 although the counter is not the total.
\<close>

theorem rounded_percentage_counterexample:
  "chunked_init env0 True (of_size 2500) \<lparr>bytes = replicate 2499 0, unreadable = None\<rparr> world0 =
     (\<lparr>chunks = [\<lparr>bytes = replicate 2499 0, unreadable = None\<rparr>], receivedLength = 2499\<rparr>,
      world0\<lparr>reported := [\<lparr>code = PROGRESS, message = ''Downloading chunks...'',
                           progress = Some ''100.0''\<rparr>]\<rparr>)
   \<and> (2499::nat) \<noteq> 2500"
proof -
  have "percent env0 2499 (of_size 2500) = fixed_digits (percent_tenths 2499 2500) 1"
    by (rule percent_eq) simp_all
  then have "percent env0 2499 (of_size 2500) = ''100.0''"
    unfolding percent_tenths_example fixed_digits_1000 .
  then show ?thesis
    by (simp add: chunked_init_def blob_size_def report_def world0_def)
qed

text \<open>
  Claim C2, amended. Take a total and a counter that are exact doubles (a total of at
  least one byte, a counter below \<open>2\<^sup>5\<^sup>3\<close>). In every state of the chunk loop the statuses
  reported since the first chunk each carry a percentage with one decimal, these
  percentages never decrease, and the last one is the percentage of the counter. When
  the counter equals the total that percentage is 100.0; and, the percentage being
  rounded to one decimal, it is 100.0 only when the counter is within 0.06 per cent of
  the total.
\<close>

theorem progress_monotone:
  assumes "loop_reach env True url (of_size t) (chunked_init env True (of_size t) firstChunk w0) (s, w)"
    and "1 \<le> t" and "receivedLength s < 2 ^ 53"
  shows "(\<exists>rs ns. reported w = reported w0 @ rs \<and> rs \<noteq> []
            \<and> map (\<lambda>r. Option.bind (progress r) tenths_of) rs = map Some ns \<and> sorted ns
            \<and> progress (last rs) = Some (percent env (receivedLength s) (of_size t)))
       \<and> (receivedLength s = t \<longrightarrow> percent env (receivedLength s) (of_size t) = ''100.0'')
       \<and> (percent env (receivedLength s) (of_size t) = ''100.0'' \<longrightarrow>
            9994 * t < 10000 * receivedLength s \<and> 10000 * receivedLength s < 10006 * t)"
proof -
  let ?mk = "\<lambda>n. \<lparr>code = PROGRESS, message = ''Downloading chunks...'',
                  progress = Some (fixed_digits n 1)\<rparr>"
  have inv: "receivedLength s < 2 ^ 53 \<longrightarrow>
      (\<exists>ns. ns \<noteq> [] \<and> sorted ns \<and> last ns = percent_tenths (receivedLength s) t
           \<and> reported w = reported w0 @ map ?mk ns)"
    using assms(1)
  proof (induction "(s, w)" arbitrary: s w rule: loop_reach.induct)
    case start
    show ?case
    proof
      assume "receivedLength s < 2 ^ 53"
      with start have small: "blob_size firstChunk < 2 ^ 53"
        by (auto simp: chunked_init_def)
      from start have "reported w = reported w0 @ map ?mk [percent_tenths (blob_size firstChunk) t]"
        and "receivedLength s = blob_size firstChunk"
        by (auto simp: chunked_init_def percent_eq [OF assms(2) small])
      then show "\<exists>ns. ns \<noteq> [] \<and> sorted ns \<and> last ns = percent_tenths (receivedLength s) t
           \<and> reported w = reported w0 @ map ?mk ns"
        by (intro exI [of _ "[percent_tenths (blob_size firstChunk) t]"]) simp
    qed
  next
    case (turn s0 w0' s w)
    show ?case
    proof
      assume small: "receivedLength s < 2 ^ 53"
      from chunk_step_Inr [OF turn.hyps(4)] obtain c where
        s: "s = \<lparr>chunks = chunks s0 @ [c], receivedLength = receivedLength s0 + blob_size c\<rparr>"
        and w: "w = report True PROGRESS ''Downloading chunks...''
                    (Some (percent env (receivedLength s0 + blob_size c) (of_size t)))
                    (w0'\<lparr>requests := requests w0' @ [range_request url (receivedLength s0)]\<rparr>)"
        by blast
      from s small have small0: "receivedLength s0 < 2 ^ 53" and r: "receivedLength s0 + blob_size c < 2 ^ 53"
        by simp_all
      with turn.hyps(2) obtain ns where ns: "ns \<noteq> []" "sorted ns"
        "last ns = percent_tenths (receivedLength s0) t" "reported w0' = reported w0 @ map ?mk ns"
        by blast
      let ?x = "percent_tenths (receivedLength s0 + blob_size c) t"
      have "last ns \<le> ?x"
        unfolding ns(3) by (rule percent_tenths_mono [OF assms(2)]) simp
      with ns have "sorted (ns @ [?x])"
        by (intro sorted_snoc_last)
      moreover have "reported w = reported w0 @ map ?mk (ns @ [?x])"
        using w ns(4) by (simp add: percent_eq [OF assms(2) r])
      ultimately show "\<exists>ns. ns \<noteq> [] \<and> sorted ns \<and> last ns = percent_tenths (receivedLength s) t
           \<and> reported w = reported w0 @ map ?mk ns"
        using s by (intro exI [of _ "ns @ [?x]"]) simp
    qed
  qed
  with assms(3) obtain ns where ns: "ns \<noteq> []" "sorted ns"
    "last ns = percent_tenths (receivedLength s) t" "reported w = reported w0 @ map ?mk ns"
    by blast
  have pe: "percent env (receivedLength s) (of_size t) = fixed_digits (percent_tenths (receivedLength s) t) 1"
    by (rule percent_eq [OF assms(2,3)])
  have "map (\<lambda>r. Option.bind (progress r) tenths_of) (map ?mk ns) = map Some ns"
    by (simp add: tenths_of_fixed_digits del: One_nat_def)
  moreover have "progress (last (map ?mk ns)) = Some (percent env (receivedLength s) (of_size t))"
    using ns(1,3) by (simp add: last_map pe)
  ultimately have first: "\<exists>rs ns. reported w = reported w0 @ rs \<and> rs \<noteq> []
            \<and> map (\<lambda>r. Option.bind (progress r) tenths_of) rs = map Some ns \<and> sorted ns
            \<and> progress (last rs) = Some (percent env (receivedLength s) (of_size t))"
    using ns by (intro exI [of _ "map ?mk ns"] exI [of _ ns]) simp
  have second: "receivedLength s = t \<longrightarrow> percent env (receivedLength s) (of_size t) = ''100.0''"
  proof
    assume "receivedLength s = t"
    with pe have "percent env (receivedLength s) (of_size t) = fixed_digits (percent_tenths t t) 1"
      by simp
    then show "percent env (receivedLength s) (of_size t) = ''100.0''"
      unfolding percent_tenths_complete [OF assms(2)] fixed_digits_1000 .
  qed
  have third: "percent env (receivedLength s) (of_size t) = ''100.0'' \<longrightarrow>
            9994 * t < 10000 * receivedLength s \<and> 10000 * receivedLength s < 10006 * t"
  proof
    assume "percent env (receivedLength s) (of_size t) = ''100.0''"
    with pe have "fixed_digits (percent_tenths (receivedLength s) t) 1 = fixed_digits 1000 1"
      unfolding fixed_digits_1000 by (rule trans [OF sym])
    then have "percent_tenths (receivedLength s) t = 1000"
      by (rule fixed_digits_1_inj)
    then show "9994 * t < 10000 * receivedLength s \<and> 10000 * receivedLength s < 10006 * t"
      by (rule percent_tenths_1000 [OF assms(2)])
  qed
  from first second third show ?thesis by blast
qed

lemma percent_example: "percent env_range 4 (of_size 5) = ''80.0''"
proof -
  have "nat \<lfloor>fl_pos (fl_pos (4 / 5) * 100) * 10 + 1 / 2\<rfloor> = 800"
    by code_simp
  then have a: "percent_tenths 4 5 = 800"
    by (simp add: percent_tenths_def)
  have b: "fixed_digits 800 1 = ''80.0''"
    by code_simp
  have "percent env_range 4 (of_size 5) = fixed_digits (percent_tenths 4 5) 1"
    by (rule percent_eq) simp_all
  then show ?thesis
    unfolding a b .
qed

theorem progress_monotone_witness:
  "\<exists>s w rs ns. loop_reach env_range True ''u'' (of_size 5)
            (chunked_init env_range True (of_size 5) \<lparr>bytes = [1, 2], unreadable = None\<rparr> world0) (s, w)
     \<and> receivedLength s = 4
     \<and> reported w = reported world0 @ rs \<and> rs \<noteq> []
     \<and> map (\<lambda>r. Option.bind (progress r) tenths_of) rs = map Some ns \<and> sorted ns
     \<and> progress (last rs) = Some ''80.0''"
proof -
  let ?c0 = "\<lparr>bytes = [1, 2 :: byte], unreadable = None\<rparr>"
  let ?c1 = "\<lparr>bytes = [3, 4 :: byte], unreadable = None\<rparr>"
  let ?s1 = "\<lparr>chunks = [?c0, ?c1], receivedLength = 4\<rparr>"
  from range_reach_example obtain w where
    reach: "loop_reach env_range True ''u'' (of_size 5)
              (chunked_init env_range True (of_size 5) ?c0 world0) (?s1, w)"
    by blast
  have t: "(1::nat) \<le> 5" and small: "receivedLength ?s1 < 2 ^ 53"
    by simp_all
  from progress_monotone [OF reach t small] obtain rs ns where
    "reported w = reported world0 @ rs" "rs \<noteq> []"
    "map (\<lambda>r. Option.bind (progress r) tenths_of) rs = map Some ns" "sorted ns"
    "progress (last rs) = Some (percent env_range (receivedLength ?s1) (of_size 5))"
    by blast
  with reach show ?thesis
    by (intro exI [of _ ?s1] exI [of _ w] exI [of _ rs] exI [of _ ns]) (simp add: percent_example)
qed

section \<open>Properties of loadMap: a reload\<close>

subsection \<open>The engine\<close>












lemma contained_trans: "contained a b \<Longrightarrow> contained b c \<Longrightarrow> contained a c"
  by (auto simp: contained_def)

subsection \<open>\_cleanup\<close>



subsection \<open>A layer added in the first load and in the second\<close>

lemma member_filter_fst:
  "k \<in> fst ` set (filter Q ls) \<longleftrightarrow> (\<exists>d. (k, d) \<in> set ls \<and> Q (k, d))"
  by force










subsection \<open>forEach\<close>




subsection \<open>\_addCustomStyleLayers\<close>












lemma grown_contained: "grown name A A' \<Longrightarrow> contained A' M \<Longrightarrow> contained A M"
  by (auto simp: grown_def intro: contained_trans)




subsection \<open>\_addVectorLayers and \_addRasterLayer\<close>

lemma startsWith_name: "startsWith (name @ CHR ''-'' # rest) (name @ ''-'')"
  by (simp add: startsWith_def)














subsection \<open>loadMap\<close>












end
